theory Spec2Isabelle
  imports Main "HOL-Library.Product_Lexorder" "HOL-Library.List_Lexorder"
    "HOL-Library.Char_ord" "HOL-Library.Multiset"
begin

section \<open>Data model\<close>

text \<open>
  The views of \<^verbatim>\<open>racetime/views/race.py\<close> and \<^verbatim>\<open>racetime/views/category.py\<close>
  work on the rows of \<^verbatim>\<open>racetime.models\<close>. The fields below are the ones the views
  read or write. Timestamps are natural numbers (microseconds), user and goal references
  are the referenced row's key or name.
\<close>

text \<open>\<^verbatim>\<open>models.RaceStates\<close>: the six states of a race room. The member \<^verbatim>\<open>open\<close>
  is written \<open>open_state\<close>.\<close>

datatype RaceStates =
  open_state | invitational | pending | in_progress | finished | cancelled

record user =
  uid :: nat
  name :: string
  active :: bool
  is_active :: bool
  is_staff :: bool
  is_authenticated :: bool

record race =
  category :: string
  slug :: string
  state :: RaceStates
  version :: nat
  opened_by :: nat
  opened_at :: nat
  goal :: "string option"
  custom_goal :: "string option"
  info :: string
  streaming_required :: bool
  chat_message_delay :: nat

record message =
  posted_at :: nat
  msg_user :: "string option"
  bot :: "string option"
  is_system :: bool
  message_plain :: string
  deleted :: bool

text \<open>
  How a request ends. An error is a refusal by the permission test, a form error
  (\<^verbatim>\<open>form.add_error\<close>), a refusal reported with \<^verbatim>\<open>messages.error\<close>, or an exception
  raised by a callee. A response is a redirect, with the text of
  \<^verbatim>\<open>messages.success\<close> when the view flashes one.
\<close>

datatype error =
  PermissionDenied
  | FormError string
  | Rejected string
  | RatingsError
  | MessageError
  | AuditError

datatype response = Redirect | Success string

text \<open>The store a request leaves behind, whichever way it ended.\<close>

definition store_of :: "(error \<times> 's) + (response \<times> 's) \<Rightarrow> 's" where
  "store_of res = (case res of Inl (x, s) \<Rightarrow> s | Inr (y, s) \<Rightarrow> s)"

section \<open>The race views\<close>

subsection \<open>EditRace: the permission test\<close>

text \<open>
  Modelled from the spec: \<^verbatim>\<open>models.Race.is_done\<close> is not among the sources. The spec
  names \<open>finished\<close> and \<open>cancelled\<close> as the terminal states and says that edits are
  blocked when the room is "done".
\<close>

definition is_done :: "race \<Rightarrow> bool" where
  "is_done r = (state r = finished \<or> state r = cancelled)"

text \<open>
  \<^verbatim>\<open>EditRace.test_func\<close>: \<^verbatim>\<open>super().test_func() and not self.get_object().is_done\<close>.
  The first argument is the result of \<^verbatim>\<open>CanMonitorRaceMixin.test_func\<close> (in
  \<^verbatim>\<open>views/base.py\<close>, not among the sources): whether the user can monitor the race.
\<close>

definition EditRace_test_func :: "bool \<Rightarrow> race \<Rightarrow> bool" where
  "EditRace_test_func can_monitor obj = (can_monitor \<and> \<not> is_done obj)"

subsection \<open>EditRace: the store and the form\<close>

text \<open>
  What an edit touches: the stored row of the race, the messages of the room in posting
  order, the number of rating recalculations that were run and kept, and the number of
  plain data broadcasts.
\<close>

record room_store =
  race_row :: race
  message_set :: "message list"
  ratings_updates :: nat
  broadcasts :: nat

text \<open>The cleaned values of the edit form, one per field that \<^verbatim>\<open>form_valid\<close> looks at.
  Which of them a form lets the user change (\<^verbatim>\<open>RaceEditForm\<close> while the race is
  preparing, \<^verbatim>\<open>StartedRaceEditForm\<close> after) is decided in \<^verbatim>\<open>racetime.forms\<close>, not among
  the sources; a field the form does not offer keeps the value of the instance.\<close>

record edit_form =
  f_goal :: "string option"
  f_custom_goal :: "string option"
  f_info :: string
  f_streaming_required :: bool
  f_chat_message_delay :: nat

text \<open>
  The request's environment: the clock, and which of the calls into \<^verbatim>\<open>models.Race\<close>
  raise. Both callees are outside the sources, so whether they raise is an input.
\<close>

record env =
  now :: nat
  ratings_raise :: bool
  message_raise :: "string \<Rightarrow> bool"

text \<open>\<^verbatim>\<open>self.get_object()\<close>: the view's in-memory copy of the stored row.\<close>

definition get_object :: "room_store \<Rightarrow> race" where
  "get_object s = race_row s"

text \<open>\<^verbatim>\<open>form.changed_data\<close>: the names of the fields whose cleaned value differs from
  the value of the instance the form was built on, in field order.\<close>

definition changed_data :: "edit_form \<Rightarrow> race \<Rightarrow> string list" where
  "changed_data form obj =
     (if f_goal form \<noteq> goal obj then [''goal''] else []) @
     (if f_custom_goal form \<noteq> custom_goal obj then [''custom_goal''] else []) @
     (if f_info form \<noteq> info obj then [''info''] else []) @
     (if f_streaming_required form \<noteq> streaming_required obj
        then [''streaming_required''] else []) @
     (if f_chat_message_delay form \<noteq> chat_message_delay obj
        then [''chat_message_delay''] else [])"

text \<open>\<^verbatim>\<open>form.save(commit=False)\<close>: the instance with the cleaned values written to it,
  nothing stored yet.\<close>

definition form_save :: "edit_form \<Rightarrow> race \<Rightarrow> race" where
  "form_save form obj =
     obj\<lparr>goal := f_goal form, custom_goal := f_custom_goal form, info := f_info form,
         streaming_required := f_streaming_required form,
         chat_message_delay := f_chat_message_delay form\<rparr>"

text \<open>
  Modelled from the spec: \<^verbatim>\<open>models.Race.goal_str\<close> is not among the sources. A room
  has a goal or a custom goal, mutually exclusive.
\<close>

definition goal_str :: "race \<Rightarrow> string" where
  "goal_str r =
     (case goal r of Some g \<Rightarrow> g
      | None \<Rightarrow> (case custom_goal r of Some c \<Rightarrow> c | None \<Rightarrow> []))"

text \<open>\<^verbatim>\<open>timedelta.seconds\<close> of a duration held in whole seconds: the seconds within
  the day.\<close>

definition timedelta_seconds :: "nat \<Rightarrow> nat" where
  "timedelta_seconds d = d mod 86400"

text \<open>Python's \<^verbatim>\<open>'%d' % n\<close> for a natural number.\<close>

fun digit_char :: "nat \<Rightarrow> char" where
  "digit_char n = ''0123456789'' ! n"

fun show_nat :: "nat \<Rightarrow> string" where
  "show_nat n = (if n < 10 then [digit_char n] else show_nat (n div 10) @ [digit_char (n mod 10)])"

declare show_nat.simps [simp del]

text \<open>
  Modelled from the spec: \<^verbatim>\<open>models.Race.add_message\<close> is not among the sources. A
  system message is a message authored by the room itself; it is appended to the room's
  message sequence. The call can raise, and then nothing is appended.
\<close>

definition system_message :: "nat \<Rightarrow> string \<Rightarrow> message" where
  "system_message t body =
     \<lparr>posted_at = t, msg_user = None, bot = None, is_system = True,
      message_plain = body, deleted = False\<rparr>"

definition add_message ::
  "env \<Rightarrow> string \<Rightarrow> room_store \<Rightarrow> (error \<times> room_store) + room_store" where
  "add_message e body s =
     (if message_raise e body then Inl (MessageError, s)
      else Inr (s\<lparr>message_set := message_set s @ [system_message (now e) body]\<rparr>))"

text \<open>\<^verbatim>\<open>models.Race.broadcast_data\<close> (not among the sources): counted only.\<close>

definition broadcast_data :: "room_store \<Rightarrow> room_store" where
  "broadcast_data s = s\<lparr>broadcasts := broadcasts s + 1\<rparr>"

text \<open>Sequencing of steps that can raise: the first error ends the request and carries
  the store as it stands at that moment.\<close>

definition and_then :: "('e + 'a) \<Rightarrow> ('a \<Rightarrow> 'e + 'b) \<Rightarrow> 'e + 'b" where
  "and_then m f = (case m of Inl x \<Rightarrow> Inl x | Inr y \<Rightarrow> f y)"

subsection \<open>EditRace.form_valid\<close>

text \<open>
  The block under \<^verbatim>\<open>with atomic()\<close>: \<^verbatim>\<open>race.save()\<close> writes the instance with
  \<^verbatim>\<open>version = F('version') + 1\<close>, that is the stored version plus one, and
  \<^verbatim>\<open>race.update_entrant_ratings()\<close> runs when the goal changed. When the rating update
  raises, the transaction is rolled back: the store is the one before the block.
\<close>

definition goal_changed :: "string list \<Rightarrow> bool" where
  "goal_changed cd = (''goal'' \<in> set cd \<or> ''custom_goal'' \<in> set cd)"

definition atomic_save ::
  "env \<Rightarrow> race \<Rightarrow> string list \<Rightarrow> room_store \<Rightarrow> (error \<times> room_store) + room_store" where
  "atomic_save e r cd s =
     (let saved = s\<lparr>race_row := r\<lparr>version := version (race_row s) + 1\<rparr>\<rparr>
      in if goal_changed cd
         then (if ratings_raise e then Inl (RatingsError, s)
               else Inr (saved\<lparr>ratings_updates := ratings_updates saved + 1\<rparr>))
         else Inr saved)"

text \<open>The four blocks after the transaction, each on the pair of the local
  \<^verbatim>\<open>messaged\<close> and the store.\<close>

definition goal_block ::
  "env \<Rightarrow> string \<Rightarrow> race \<Rightarrow> string list \<Rightarrow> bool \<times> room_store
     \<Rightarrow> (error \<times> room_store) + bool \<times> room_store" where
  "goal_block e usr r cd ms =
     (if goal_changed cd
      then and_then (add_message e (usr @ '' set a new goal: '' @ goal_str r @ ''.'') (snd ms))
             (\<lambda>s. Inr (True, s))
      else Inr ms)"

definition info_block ::
  "env \<Rightarrow> string \<Rightarrow> string list \<Rightarrow> bool \<times> room_store
     \<Rightarrow> (error \<times> room_store) + bool \<times> room_store" where
  "info_block e usr cd ms =
     (if ''info'' \<in> set cd
      then and_then (add_message e (usr @ '' updated the race information.'') (snd ms))
             (\<lambda>s. Inr (True, s))
      else Inr ms)"

definition streaming_block ::
  "env \<Rightarrow> race \<Rightarrow> string list \<Rightarrow> bool \<times> room_store
     \<Rightarrow> (error \<times> room_store) + bool \<times> room_store" where
  "streaming_block e r cd ms =
     (if ''streaming_required'' \<in> set cd
      then and_then
             (if streaming_required r
              then add_message e ''Streaming is now required for this race.'' (snd ms)
              else add_message e ''Streaming is now NOT required for this race.'' (snd ms))
             (\<lambda>s. Inr (True, s))
      else Inr ms)"

definition delay_block ::
  "env \<Rightarrow> race \<Rightarrow> string list \<Rightarrow> bool \<times> room_store
     \<Rightarrow> (error \<times> room_store) + bool \<times> room_store" where
  "delay_block e r cd ms =
     (if ''chat_message_delay'' \<in> set cd
      then and_then
             (if chat_message_delay r \<noteq> 0
              then add_message e
                     (''Chat delay is now '' @ show_nat (timedelta_seconds (chat_message_delay r)) @
                      '' seconds.'')
                     (snd ms)
              else add_message e ''Chat delay has been removed.'' (snd ms))
             (\<lambda>s. Inr (True, s))
      else Inr ms)"

text \<open>
  \<^verbatim>\<open>EditRace.form_valid\<close>. \<open>usr\<close> is \<^verbatim>\<open>str(self.user)\<close>, \<open>obj\<close> the instance the
  form was built on. The result is the redirect with the final store, or the error that
  ended the request with the store as it stood.
\<close>

definition EditRace_form_valid ::
  "env \<Rightarrow> string \<Rightarrow> edit_form \<Rightarrow> race \<Rightarrow> room_store
     \<Rightarrow> (error \<times> room_store) + (response \<times> room_store)" where
  "EditRace_form_valid e usr form obj s =
     (let r = form_save form obj; cd = changed_data form obj
      in and_then (atomic_save e r cd s) (\<lambda>s1.
         and_then (goal_block e usr r cd (False, s1)) (\<lambda>m2.
         and_then (info_block e usr cd m2) (\<lambda>m3.
         and_then (streaming_block e r cd m3) (\<lambda>m4.
         and_then (delay_block e r cd m4) (\<lambda>m5.
         Inr (Redirect, if \<not> fst m5 then broadcast_data (snd m5) else snd m5)))))))"

text \<open>
  The request as Django's \<^verbatim>\<open>UserPassesTestMixin\<close> dispatches it: the permission test
  runs first, and a failed test ends the request before the form is handled.
\<close>

definition EditRace_post ::
  "env \<Rightarrow> bool \<Rightarrow> string \<Rightarrow> edit_form \<Rightarrow> room_store
     \<Rightarrow> (error \<times> room_store) + (response \<times> room_store)" where
  "EditRace_post e can_monitor usr form s =
     (let obj = get_object s
      in if \<not> EditRace_test_func can_monitor obj then Inl (PermissionDenied, s)
         else EditRace_form_valid e usr form obj s)"


text \<open>
  Two moderators who both loaded the edit page from the same stored row and then submit
  one after the other: both instances are copies of the row as it was read, the second
  form is handled on the store the first request left.
\<close>

definition two_edits ::
  "env \<Rightarrow> string \<Rightarrow> edit_form \<Rightarrow> string \<Rightarrow> edit_form \<Rightarrow> room_store
     \<Rightarrow> ((error \<times> room_store) + (response \<times> room_store)) \<times>
        ((error \<times> room_store) + (response \<times> room_store))" where
  "two_edits e usr1 form1 usr2 form2 s =
     (let obj1 = get_object s; obj2 = get_object s;
          res1 = EditRace_form_valid e usr1 form1 obj1 s;
          res2 = EditRace_form_valid e usr2 form2 obj2 (store_of res1)
      in (res1, res2))"

text \<open>The row that \<^verbatim>\<open>race.save()\<close> stores, and the bodies of the system messages of an
  edit in the order of the four blocks: the terms the properties below are stated in.\<close>

definition saved_row :: "edit_form \<Rightarrow> race \<Rightarrow> room_store \<Rightarrow> race" where
  "saved_row form obj s = (form_save form obj)\<lparr>version := version (race_row s) + 1\<rparr>"

definition edit_message_bodies :: "string \<Rightarrow> edit_form \<Rightarrow> race \<Rightarrow> string list" where
  "edit_message_bodies usr form obj =
     (if f_goal form \<noteq> goal obj \<or> f_custom_goal form \<noteq> custom_goal obj
      then [usr @ '' set a new goal: '' @ goal_str (form_save form obj) @ ''.''] else []) @
     (if f_info form \<noteq> info obj then [usr @ '' updated the race information.''] else []) @
     (if f_streaming_required form \<noteq> streaming_required obj
      then [if f_streaming_required form then ''Streaming is now required for this race.''
            else ''Streaming is now NOT required for this race.''] else []) @
     (if f_chat_message_delay form \<noteq> chat_message_delay obj
      then [if f_chat_message_delay form \<noteq> 0
            then ''Chat delay is now '' @ show_nat (timedelta_seconds (f_chat_message_delay form)) @
                 '' seconds.''
            else ''Chat delay has been removed.''] else [])"

subsection \<open>RaceChatLog\<close>

text \<open>\<^verbatim>\<open>m.user or m.bot\<close>, formatted with \<^verbatim>\<open>%s\<close>.\<close>

definition user_or_bot :: "message \<Rightarrow> string" where
  "user_or_bot m =
     (case msg_user m of Some u \<Rightarrow> u
      | None \<Rightarrow> (case bot m of Some b \<Rightarrow> b | None \<Rightarrow> ''None''))"

text \<open>\<^verbatim>\<open>posted_at.replace(microsecond=0)\<close> on a time in microseconds.\<close>

definition replace_microsecond0 :: "nat \<Rightarrow> nat" where
  "replace_microsecond0 t = t - t mod 1000000"

text \<open>One line of the log. \<open>str_dt\<close> is Python's \<^verbatim>\<open>str\<close> of a datetime.\<close>

definition render_line :: "(nat \<Rightarrow> string) \<Rightarrow> message \<Rightarrow> string" where
  "render_line str_dt m =
     (if is_system m
      then ''['' @ str_dt (replace_microsecond0 (posted_at m)) @ ''] '' @ message_plain m
      else ''['' @ str_dt (replace_microsecond0 (posted_at m)) @ ''] '' @ user_or_bot m @
           '': '' @ message_plain m)"

text \<open>\<^verbatim>\<open>'\n'.join(lines)\<close>.\<close>

fun join_lines :: "string list \<Rightarrow> string" where
  "join_lines [] = []"
| "join_lines [x] = x"
| "join_lines (x # y # ys) = x @ [CHR 0x0A] @ join_lines (y # ys)"

text \<open>
  \<^verbatim>\<open>message_set.filter(deleted=False).order_by('posted_at')\<close>. The query names no
  further key, so the order of messages posted at the same time is the database's:
  \<open>chat_log_messages ms rs\<close> says that \<open>rs\<close> is a list the query can return for the
  messages \<open>ms\<close> of the room, that is the messages whose flag is not set, each as often
  as the room has it, in an order that is ascending in the posting time.
\<close>

definition chat_log_messages :: "message list \<Rightarrow> message list \<Rightarrow> bool" where
  "chat_log_messages ms rs =
     (mset rs = mset (filter (\<lambda>m. \<not> deleted m) ms) \<and> sorted (map posted_at rs))"

text \<open>The content of the response of \<^verbatim>\<open>RaceChatLog.get\<close>, for the list \<open>messages\<close>
  that the query returned.\<close>

definition RaceChatLog_get :: "(nat \<Rightarrow> string) \<Rightarrow> message list \<Rightarrow> string" where
  "RaceChatLog_get str_dt messages = join_lines (map (render_line str_dt) messages)"

text \<open>
  Modelled from the spec: the operation that deletes a message is not among the sources.
  The spec says that a message is never physically removed (logical delete only): the
  message at sequence position \<open>i\<close> gets its deleted flag set. There is nothing to
  delete at a position the room does not have.
\<close>

definition delete_message :: "nat \<Rightarrow> message list \<Rightarrow> message list option" where
  "delete_message i ms =
     (if i < length ms then Some (ms[i := (ms ! i)\<lparr>deleted := True\<rparr>]) else None)"

text \<open>
  Modelled from the spec: the operation that posts a message is not among the sources
  either. The spec gives a message its sequence position from the posting order (here
  its index in the room's list) and never removes a message: posting appends the
  message, not deleted, at the next position. A room's history is a run of postings and
  deletions.
\<close>

datatype message_op = Post message | Delete nat

fun message_step :: "message list \<Rightarrow> message_op \<Rightarrow> message list" where
  "message_step ms (Post m) = ms @ [m\<lparr>deleted := False\<rparr>]"
| "message_step ms (Delete i) =
     (case delete_message i ms of Some ms' \<Rightarrow> ms' | None \<Rightarrow> ms)"

definition run_ops :: "message list \<Rightarrow> message_op list \<Rightarrow> message list" where
  "run_ops ms ops = foldl message_step ms ops"

subsection \<open>CreateRace\<close>

text \<open>The race table and the log that \<^verbatim>\<open>user.log_action\<close> writes to.\<close>

record site_store =
  races :: "race list"
  action_log :: "(nat \<times> string) list"

text \<open>\<^verbatim>\<open>user.opened_races\<close>: the races the user opened.\<close>

definition opened_races :: "user \<Rightarrow> race list \<Rightarrow> race list" where
  "opened_races u tbl = filter (\<lambda>r. opened_by r = uid u) tbl"

text \<open>\<^verbatim>\<open>.exclude(state__in=[finished, cancelled])\<close>.\<close>

definition exclude_done :: "race list \<Rightarrow> race list" where
  "exclude_done rs = filter (\<lambda>r. \<not> (state r = finished \<or> state r = cancelled)) rs"

text \<open>\<^verbatim>\<open>CreateRace.test_func\<close>. \<open>can_start_race\<close> is the result of
  \<^verbatim>\<open>category.can_start_race(self.user)\<close>, not among the sources.\<close>

definition CreateRace_test_func :: "user \<Rightarrow> bool \<Rightarrow> bool" where
  "CreateRace_test_func u can_start_race =
     (if \<not> is_authenticated u then False else can_start_race)"

text \<open>
  \<^verbatim>\<open>CreateRace.form_valid\<close>. \<open>can_moderate\<close> is the result of
  \<^verbatim>\<open>category.can_moderate(self.user)\<close>, \<open>new_slug\<close> that of
  \<^verbatim>\<open>category.generate_race_slug()\<close>, \<open>form_race\<close> the instance that
  \<^verbatim>\<open>form.save(commit=False)\<close> builds and \<open>invit\<close> the cleaned \<^verbatim>\<open>invitational\<close>; the
  four callees are not among the sources.
\<close>

definition CreateRace_form_valid ::
  "bool \<Rightarrow> string \<Rightarrow> string \<Rightarrow> user \<Rightarrow> bool \<Rightarrow> race \<Rightarrow> site_store
     \<Rightarrow> (error \<times> site_store) + (response \<times> site_store)" where
  "CreateRace_form_valid can_moderate cat_slug new_slug u invit form_race s =
     (if \<not> can_moderate \<and> exclude_done (opened_races u (races s)) \<noteq> []
      then Inl (FormError ''You can only have one open race room at a time.'', s)
      else
        (let r0 = form_race\<lparr>category := cat_slug, slug := new_slug\<rparr>;
             r1 = (if invit then r0\<lparr>state := invitational\<rparr> else r0);
             r2 = r1\<lparr>opened_by := uid u\<rparr>
         in Inr (Redirect,
                 s\<lparr>races := races s @ [r2],
                   action_log := action_log s @ [(uid u, ''race_create'')]\<rparr>)))"

section \<open>The category views\<close>

record category_row =
  category_slug :: string
  category_name :: string
  category_active :: bool
  owner :: user
  moderators :: "user list"
  max_moderators :: nat

subsection \<open>Category.current_races\<close>

text \<open>\<^verbatim>\<open>category.race_set\<close>: the rows of the race table that belong to the category.\<close>

definition race_set :: "category_row \<Rightarrow> race list \<Rightarrow> race list" where
  "race_set c tbl = filter (\<lambda>r. category r = category_slug c) tbl"

text \<open>The annotation \<^verbatim>\<open>state_sort\<close>: the \<^verbatim>\<open>Case\<close> with its three \<^verbatim>\<open>When\<close> branches
  in order and the default.\<close>

definition state_sort :: "RaceStates \<Rightarrow> nat" where
  "state_sort st =
     (if st = open_state \<or> st = invitational then 1
      else if st = pending then 2
      else if st = in_progress then 2
      else 0)"

definition listing_key :: "race \<Rightarrow> nat \<times> nat" where
  "listing_key r = (state_sort (state r), opened_at r)"

text \<open>
  \<^verbatim>\<open>Category.current_races\<close>: exclude the finished and cancelled rooms, annotate, and
  \<^verbatim>\<open>order_by('state_sort', 'opened_at')\<close>, the lexicographic order on the pair. The
  query names no further key, so the order of rows with the same pair is the database's:
  \<open>current_races c tbl rs\<close> says that \<open>rs\<close> is a listing the query can return, that is
  the rows the exclude keeps, each as often as the table has it, in an order that is
  ascending in the pair.
\<close>

definition current_races :: "category_row \<Rightarrow> race list \<Rightarrow> race list \<Rightarrow> bool" where
  "current_races c tbl rs =
     (mset rs = mset (exclude_done (race_set c tbl)) \<and> sorted (map listing_key rs))"

text \<open>The order of the listing as a relation on rooms, and the groups as the
  specification numbers them: open and invitational first, pending and in progress
  second, every other state third.\<close>

definition listing_le :: "race \<Rightarrow> race \<Rightarrow> bool" where
  "listing_le a b = (listing_key a \<le> listing_key b)"

definition listing_group :: "RaceStates \<Rightarrow> nat" where
  "listing_group st =
     (if st = open_state \<or> st = invitational then 1
      else if st = pending \<or> st = in_progress then 2
      else 3)"

subsection \<open>ManageCategory and AdministrateCategory\<close>



subsection \<open>Moderators and ownership\<close>

record audit_entry =
  actor :: nat
  action :: string
  subject :: "nat option"
  old_value :: "nat option"
  new_value :: "nat option"

record category_store =
  cat :: category_row
  auditlog :: "audit_entry list"

text \<open>Django compares model instances by primary key: \<^verbatim>\<open>a == b\<close> and
  \<^verbatim>\<open>a in queryset\<close>.\<close>

definition user_eq :: "user \<Rightarrow> user \<Rightarrow> bool" where
  "user_eq a b = (uid a = uid b)"

definition user_in :: "user \<Rightarrow> user list \<Rightarrow> bool" where
  "user_in u xs = (uid u \<in> set (map uid xs))"

text \<open>\<^verbatim>\<open>ModPageMixin.moderators\<close>:
  \<^verbatim>\<open>category.moderators.filter(active=True).order_by('name')\<close>.\<close>

definition ModPageMixin_moderators :: "category_row \<Rightarrow> user list" where
  "ModPageMixin_moderators c = sort_key name (filter active (moderators c))"

text \<open>\<^verbatim>\<open>moderators.add(user)\<close> and \<^verbatim>\<open>moderators.remove(user)\<close> on the many-to-many
  relation: adding a user who is in the relation changes nothing.\<close>

definition m2m_add :: "user \<Rightarrow> user list \<Rightarrow> user list" where
  "m2m_add u xs = (if user_in u xs then xs else xs @ [u])"

definition m2m_remove :: "user \<Rightarrow> user list \<Rightarrow> user list" where
  "m2m_remove u xs = filter (\<lambda>m. uid m \<noteq> uid u) xs"

text \<open>\<^verbatim>\<open>models.AuditLog.objects.create(...)\<close>. The call can raise (\<open>audit_raise\<close>), and
  then no entry is written.\<close>

definition audit_create ::
  "bool \<Rightarrow> audit_entry \<Rightarrow> category_store \<Rightarrow> (error \<times> category_store) + category_store" where
  "audit_create audit_raise entry s =
     (if audit_raise then Inl (AuditError, s)
      else Inr (s\<lparr>auditlog := auditlog s @ [entry]\<rparr>))"

text \<open>\<^verbatim>\<open>AddModerator.form_valid\<close>. \<open>act\<close> is \<^verbatim>\<open>self.user\<close>, \<open>u\<close> the cleaned
  \<^verbatim>\<open>user\<close> of the form.\<close>

definition AddModerator_form_valid ::
  "bool \<Rightarrow> user \<Rightarrow> user \<Rightarrow> category_store
     \<Rightarrow> (error \<times> category_store) + (response \<times> category_store)" where
  "AddModerator_form_valid audit_raise act u s =
     (if user_eq u (owner (cat s)) \<or> user_in u (ModPageMixin_moderators (cat s))
      then Inl (Rejected (name u @ '' is already a moderator.''), s)
      else if length (ModPageMixin_moderators (cat s)) \<ge> max_moderators (cat s)
      then Inl (Rejected ''You cannot add any more moderators to this category.'', s)
      else
        and_then
          (audit_create audit_raise
             \<lparr>actor = uid act, action = ''moderator_add'', subject = Some (uid u),
              old_value = None, new_value = None\<rparr>
             (s\<lparr>cat := (cat s)\<lparr>moderators := m2m_add u (moderators (cat s))\<rparr>\<rparr>))
          (\<lambda>s'. Inr (Success (name u @ '' added as a category moderator.''), s')))"

text \<open>\<^verbatim>\<open>RemoveModerator.form_valid\<close>.\<close>

definition RemoveModerator_form_valid ::
  "bool \<Rightarrow> user \<Rightarrow> user \<Rightarrow> category_store
     \<Rightarrow> (error \<times> category_store) + (response \<times> category_store)" where
  "RemoveModerator_form_valid audit_raise act u s =
     (if \<not> user_in u (ModPageMixin_moderators (cat s))
      then Inl (Rejected (name u @ '' is not a moderator for this category.''), s)
      else
        and_then
          (audit_create audit_raise
             \<lparr>actor = uid act, action = ''moderator_remove'', subject = Some (uid u),
              old_value = None, new_value = None\<rparr>
             (s\<lparr>cat := (cat s)\<lparr>moderators := m2m_remove u (moderators (cat s))\<rparr>\<rparr>))
          (\<lambda>s'. Inr (Success (name u @ '' removed from category moderators.''), s')))"

text \<open>
  \<^verbatim>\<open>TransferOwner.form_valid\<close>. The block under \<^verbatim>\<open>with atomic()\<close> sets the owner,
  removes the new owner from the moderators when he is one, and writes the audit entry;
  when the audit entry raises, the block is rolled back and the store is the one before
  it.
\<close>

definition transfer_block :: "user \<Rightarrow> user \<Rightarrow> category_store \<Rightarrow> category_store" where
  "transfer_block act u s =
     (let c1 = (cat s)\<lparr>owner := u\<rparr>;
          c2 = (if user_in u (moderators c1)
                then c1\<lparr>moderators := m2m_remove u (moderators c1)\<rparr> else c1)
      in s\<lparr>cat := c2,
           auditlog := auditlog s @
             [\<lparr>actor = uid act, action = ''owner_change'', subject = None,
               old_value = Some (uid (owner (cat s))), new_value = Some (uid u)\<rparr>]\<rparr>)"

definition TransferOwner_form_valid ::
  "bool \<Rightarrow> user \<Rightarrow> user \<Rightarrow> category_store
     \<Rightarrow> (error \<times> category_store) + (response \<times> category_store)" where
  "TransferOwner_form_valid audit_raise act u s =
     (let old_owner = owner (cat s)
      in if audit_raise then Inl (AuditError, s)
         else
           (let s' = transfer_block act u s
            in if user_eq old_owner act
               then Inr (Success (''Ownership of '' @ category_name (cat s') @
                       '' has been transferred to '' @ name u @
                       ''. You are no longer the owner of this category.''), s')
               else Inr (Success (''Ownership of '' @ category_name (cat s') @
                       '' has been transferred to '' @ name u @ ''. '' @ name old_owner @
                       '' is no longer the owner of this category.''), s')))"

text \<open>The invariant: the owner is not in the moderators.\<close>

definition owner_not_moderator :: "category_store \<Rightarrow> bool" where
  "owner_not_moderator s = (\<not> user_in (owner (cat s)) (moderators (cat s)))"

section \<open>Terms for the properties\<close>

text \<open>A list of system messages added one after the other: the first call that raises
  ends the request.\<close>

fun add_messages ::
  "env \<Rightarrow> string list \<Rightarrow> room_store \<Rightarrow> (error \<times> room_store) + room_store" where
  "add_messages e [] s = Inr s"
| "add_messages e (b # bs) s = and_then (add_message e b s) (add_messages e bs)"

text \<open>The common shape of the four blocks of \<open>EditRace_form_valid\<close>: when the condition
  holds, add the message and set \<^verbatim>\<open>messaged\<close>.\<close>

definition message_block ::
  "env \<Rightarrow> bool \<Rightarrow> string \<Rightarrow> bool \<times> room_store
     \<Rightarrow> (error \<times> room_store) + bool \<times> room_store" where
  "message_block e c body ms =
     (if c then and_then (add_message e body (snd ms)) (\<lambda>s. Inr (True, s)) else Inr ms)"

text \<open>Whether a request ended with a response.\<close>

definition succeeded :: "('e + 'a) \<Rightarrow> bool" where
  "succeeded res = (case res of Inl x \<Rightarrow> False | Inr y \<Rightarrow> True)"

text \<open>Python's \<^verbatim>\<open>s.split('\n')\<close>, to read the lines of an export back, and the
  postings among a list of operations.\<close>

fun split_lines :: "string \<Rightarrow> string list" where
  "split_lines [] = [[]]"
| "split_lines (c # cs) =
     (if c = CHR 0x0A then [] # split_lines cs
      else (case split_lines cs of [] \<Rightarrow> [[c]] | l # ls \<Rightarrow> (c # l) # ls))"

fun is_post :: "message_op \<Rightarrow> bool" where
  "is_post (Post m) = True"
| "is_post (Delete i) = False"

section \<open>Example inputs\<close>

definition ex_race :: race where
  "ex_race =
     \<lparr>category = ''smw'', slug = ''clever-yoshi-1234'', state = open_state, version = 5,
      opened_by = 1, opened_at = 100, goal = Some ''Any%'', custom_goal = None,
      info = [], streaming_required = False, chat_message_delay = 0\<rparr>"

definition ex_room :: room_store where
  "ex_room = \<lparr>race_row = ex_race, message_set = [], ratings_updates = 0, broadcasts = 0\<rparr>"

definition ex_room_finished :: room_store where
  "ex_room_finished = ex_room\<lparr>race_row := ex_race\<lparr>state := finished\<rparr>\<rparr>"

definition ex_env :: env where
  "ex_env = \<lparr>now = 200, ratings_raise = False, message_raise = (\<lambda>b. False)\<rparr>"

definition ex_env_message_raises :: env where
  "ex_env_message_raises = \<lparr>now = 200, ratings_raise = False, message_raise = (\<lambda>b. True)\<rparr>"

definition ex_form_info :: edit_form where
  "ex_form_info =
     \<lparr>f_goal = Some ''Any%'', f_custom_goal = None, f_info = ''Bring snacks'',
      f_streaming_required = False, f_chat_message_delay = 0\<rparr>"

definition ex_form_streaming :: edit_form where
  "ex_form_streaming =
     \<lparr>f_goal = Some ''Any%'', f_custom_goal = None, f_info = [],
      f_streaming_required = True, f_chat_message_delay = 0\<rparr>"

definition ex_form_goal :: edit_form where
  "ex_form_goal =
     \<lparr>f_goal = None, f_custom_goal = Some ''Beat the game'', f_info = [],
      f_streaming_required = False, f_chat_message_delay = 0\<rparr>"

definition ex_room_info_saved :: room_store where
  "ex_room_info_saved = ex_room\<lparr>race_row := ex_race\<lparr>info := ''Bring snacks'', version := 6\<rparr>\<rparr>"

definition ex_room_info_done :: room_store where
  "ex_room_info_done =
     ex_room_info_saved
       \<lparr>message_set := [system_message 200 ''mod updated the race information.'']\<rparr>"

definition ex_room_streaming_done :: room_store where
  "ex_room_streaming_done =
     ex_room\<lparr>race_row := ex_race\<lparr>streaming_required := True, version := 6\<rparr>,
             message_set := [system_message 200 ''Streaming is now required for this race.'']\<rparr>"

definition ex_room_goal_done :: room_store where
  "ex_room_goal_done =
     ex_room\<lparr>race_row := ex_race\<lparr>goal := None, custom_goal := Some ''Beat the game'',
                                  version := 6\<rparr>,
             message_set := [system_message 200 ''mod set a new goal: Beat the game.''],
             ratings_updates := 1\<rparr>"

definition ex_owner :: user where
  "ex_owner = \<lparr>uid = 1, name = ''alice'', active = True, is_active = True,
     is_staff = False, is_authenticated = True\<rparr>"

definition ex_mod :: user where
  "ex_mod = \<lparr>uid = 2, name = ''bob'', active = True, is_active = True,
     is_staff = False, is_authenticated = True\<rparr>"

definition ex_mod_inactive :: user where
  "ex_mod_inactive = \<lparr>uid = 3, name = ''carol'', active = False, is_active = False,
     is_staff = False, is_authenticated = True\<rparr>"

definition ex_plain :: user where
  "ex_plain = \<lparr>uid = 4, name = ''dave'', active = True, is_active = True,
     is_staff = False, is_authenticated = True\<rparr>"

definition ex_staff :: user where
  "ex_staff = \<lparr>uid = 9, name = ''erin'', active = True, is_active = True,
     is_staff = True, is_authenticated = True\<rparr>"

definition ex_category :: category_row where
  "ex_category = \<lparr>category_slug = ''smw'', category_name = ''Super Mario World'',
     category_active = True, owner = ex_owner, moderators = [ex_mod, ex_mod_inactive],
     max_moderators = 5\<rparr>"


definition ex_race_dave :: race where
  "ex_race_dave = ex_race\<lparr>slug := ''epic-luigi-0042'', opened_by := 4, opened_at := 150\<rparr>"

definition ex_site :: site_store where
  "ex_site = \<lparr>races = [ex_race, ex_race_dave], action_log = []\<rparr>"

definition ex_new_race :: race where
  "ex_new_race =
     \<lparr>category = [], slug = [], state = open_state, version = 0, opened_by = 0,
      opened_at = 300, goal = Some ''Any%'', custom_goal = None, info = [],
      streaming_required = True, chat_message_delay = 0\<rparr>"

definition ex_msg_hi :: message where
  "ex_msg_hi = \<lparr>posted_at = 3000000, msg_user = Some ''alice'', bot = None,
     is_system = False, message_plain = ''hi'', deleted = False\<rparr>"

definition ex_msg_oops :: message where
  "ex_msg_oops = \<lparr>posted_at = 2000000, msg_user = Some ''bob'', bot = None,
     is_system = False, message_plain = ''oops'', deleted = False\<rparr>"

definition ex_msg_start :: message where
  "ex_msg_start = \<lparr>posted_at = 1500000, msg_user = None, bot = None,
     is_system = True, message_plain = ''The race has begun.'', deleted = False\<rparr>"

definition ex_messages :: "message list" where
  "ex_messages = [ex_msg_start, ex_msg_oops, ex_msg_hi]"

definition ex_race_inv :: race where
  "ex_race_inv = ex_race\<lparr>slug := ''a'', state := invitational, opened_at := 80\<rparr>"

definition ex_race_inprog :: race where
  "ex_race_inprog = ex_race\<lparr>slug := ''b'', state := in_progress, opened_at := 50\<rparr>"

definition ex_race_pending :: race where
  "ex_race_pending = ex_race\<lparr>slug := ''c'', state := pending, opened_at := 60\<rparr>"

definition ex_race_finished :: race where
  "ex_race_finished = ex_race\<lparr>slug := ''d'', state := finished, opened_at := 10\<rparr>"

definition ex_race_elsewhere :: race where
  "ex_race_elsewhere = ex_race\<lparr>category := ''oot'', slug := ''e'', opened_at := 5\<rparr>"

definition ex_table :: "race list" where
  "ex_table = [ex_race_inprog, ex_race, ex_race_finished, ex_race_pending,
               ex_race_elsewhere, ex_race_inv]"



definition ex_tie_a :: race where
  "ex_tie_a = ex_race\<lparr>slug := ''tie-a''\<rparr>"

definition ex_tie_b :: race where
  "ex_tie_b = ex_race\<lparr>slug := ''tie-b''\<rparr>"

definition ex_msg_late :: message where
  "ex_msg_late = \<lparr>posted_at = 4000000, msg_user = None, bot = Some ''RandoBot'',
     is_system = False, message_plain = ''seed rolled'', deleted = False\<rparr>"

section \<open>Lemmas\<close>

subsection \<open>EditRace.form_valid as a save followed by a list of messages\<close>

lemma goal_changed_iff:
  "goal_changed (changed_data form obj) \<longleftrightarrow>
     f_goal form \<noteq> goal obj \<or> f_custom_goal form \<noteq> custom_goal obj"
  by (simp add: goal_changed_def changed_data_def)

lemma info_changed_iff:
  "''info'' \<in> set (changed_data form obj) \<longleftrightarrow> f_info form \<noteq> info obj"
  by (simp add: changed_data_def)

lemma streaming_changed_iff:
  "''streaming_required'' \<in> set (changed_data form obj) \<longleftrightarrow>
     f_streaming_required form \<noteq> streaming_required obj"
  by (simp add: changed_data_def)

lemma delay_changed_iff:
  "''chat_message_delay'' \<in> set (changed_data form obj) \<longleftrightarrow>
     f_chat_message_delay form \<noteq> chat_message_delay obj"
  by (simp add: changed_data_def)

lemma goal_block_eq:
  "goal_block e usr r cd ms =
     message_block e (goal_changed cd) (usr @ '' set a new goal: '' @ goal_str r @ ''.'') ms"
  by (simp add: goal_block_def message_block_def)

lemma info_block_eq:
  "info_block e usr cd ms =
     message_block e (''info'' \<in> set cd) (usr @ '' updated the race information.'') ms"
  by (simp add: info_block_def message_block_def)

lemma streaming_block_eq:
  "streaming_block e r cd ms =
     message_block e (''streaming_required'' \<in> set cd)
       (if streaming_required r then ''Streaming is now required for this race.''
        else ''Streaming is now NOT required for this race.'') ms"
  by (simp add: streaming_block_def message_block_def)

lemma delay_block_eq:
  "delay_block e r cd ms =
     message_block e (''chat_message_delay'' \<in> set cd)
       (if chat_message_delay r \<noteq> 0
        then ''Chat delay is now '' @ show_nat (timedelta_seconds (chat_message_delay r)) @
             '' seconds.''
        else ''Chat delay has been removed.'') ms"
  by (simp add: delay_block_def message_block_def)

lemma message_block_step:
  "and_then (message_block e c b (m, s)) k =
     and_then (add_messages e (if c then [b] else []) s) (\<lambda>s'. k (m \<or> c, s'))"
  by (cases "add_message e b s") (simp_all add: message_block_def and_then_def)

lemma add_messages_append:
  "add_messages e (xs @ ys) s = and_then (add_messages e xs s) (add_messages e ys)"
proof (induction xs arbitrary: s)
  case Nil
  show ?case by (simp add: and_then_def)
next
  case (Cons x xs)
  show ?case
    by (cases "add_message e x s") (simp_all add: and_then_def Cons.IH)
qed

lemma and_then_add_messages:
  "and_then (add_messages e xs s) (\<lambda>s'. and_then (add_messages e ys s') k) =
     and_then (add_messages e (xs @ ys) s) k"
  by (cases "add_messages e xs s") (simp_all add: add_messages_append and_then_def)


lemma edit_message_bodies_eq:
  "edit_message_bodies usr form obj =
     (if goal_changed (changed_data form obj)
      then [usr @ '' set a new goal: '' @ goal_str (form_save form obj) @ ''.''] else []) @
     (if ''info'' \<in> set (changed_data form obj)
      then [usr @ '' updated the race information.''] else []) @
     (if ''streaming_required'' \<in> set (changed_data form obj)
      then [if streaming_required (form_save form obj)
            then ''Streaming is now required for this race.''
            else ''Streaming is now NOT required for this race.''] else []) @
     (if ''chat_message_delay'' \<in> set (changed_data form obj)
      then [if chat_message_delay (form_save form obj) \<noteq> 0
            then ''Chat delay is now '' @
                 show_nat (timedelta_seconds (chat_message_delay (form_save form obj))) @
                 '' seconds.''
            else ''Chat delay has been removed.''] else [])"
  unfolding goal_changed_iff info_changed_iff streaming_changed_iff delay_changed_iff
    edit_message_bodies_def
  by (simp add: form_save_def)

lemma four_blocks:
  "and_then (message_block e c1 b1 (False, s1)) (\<lambda>m2.
   and_then (message_block e c2 b2 m2) (\<lambda>m3.
   and_then (message_block e c3 b3 m3) (\<lambda>m4.
   and_then (message_block e c4 b4 m4) (\<lambda>m5.
     Inr (Redirect, if \<not> fst m5 then broadcast_data (snd m5) else snd m5))))) =
   and_then
     (add_messages e
        ((if c1 then [b1] else []) @ (if c2 then [b2] else []) @
         (if c3 then [b3] else []) @ (if c4 then [b4] else [])) s1)
     (\<lambda>s2. Inr (Redirect, if \<not> (c1 \<or> c2 \<or> c3 \<or> c4) then broadcast_data s2 else s2))"
proof -
  have step: "\<And>c b m s k. and_then (message_block e c b (m, s)) (\<lambda>p. k p) =
      and_then (add_messages e (if c then [b] else []) s) (\<lambda>s'. k (m \<or> c, s'))"
    by (rule message_block_step)
  have split_pair: "\<And>c b p k. and_then (message_block e c b p) k =
      and_then (add_messages e (if c then [b] else []) (snd p)) (\<lambda>s'. k (fst p \<or> c, s'))"
    using message_block_step by (metis prod.collapse)
  show ?thesis
    unfolding split_pair fst_conv snd_conv and_then_add_messages
    by simp
qed

lemma bodies_empty_iff:
  "((if c1 then [b1] else []) @ (if c2 then [b2] else []) @
    (if c3 then [b3] else []) @ (if c4 then [b4] else []) = []) \<longleftrightarrow>
   \<not> (c1 \<or> c2 \<or> c3 \<or> (c4::bool))"
  by simp

lemma form_valid_unfold:
  "EditRace_form_valid e usr form obj s =
     and_then (atomic_save e (form_save form obj) (changed_data form obj) s) (\<lambda>s1.
     and_then (add_messages e (edit_message_bodies usr form obj) s1) (\<lambda>s2.
       Inr (Redirect,
            if edit_message_bodies usr form obj = [] then broadcast_data s2 else s2)))"
  unfolding EditRace_form_valid_def Let_def goal_block_eq info_block_eq streaming_block_eq
    delay_block_eq four_blocks edit_message_bodies_eq bodies_empty_iff
  by (rule refl)

subsection \<open>How an edit ends\<close>

lemma add_messages_Inr:
  "add_messages e bs s = Inr s' \<Longrightarrow>
     s' = s\<lparr>message_set := message_set s @ map (system_message (now e)) bs\<rparr>"
proof (induction bs arbitrary: s)
  case Nil
  then show ?case by simp
next
  case (Cons b bs)
  show ?case
  proof (cases "message_raise e b")
    case True
    with Cons.prems show ?thesis by (simp add: and_then_def add_message_def)
  next
    case False
    with Cons.prems have
      "add_messages e bs (s\<lparr>message_set := message_set s @ [system_message (now e) b]\<rparr>) = Inr s'"
      by (simp add: and_then_def add_message_def)
    from Cons.IH [OF this] show ?thesis by simp
  qed
qed

lemma add_messages_Inl:
  "add_messages e bs s = Inl (err, s') \<Longrightarrow>
     err = MessageError \<and>
     (\<exists>k<length bs. message_raise e (bs ! k) \<and>
        s' = s\<lparr>message_set := message_set s @ map (system_message (now e)) (take k bs)\<rparr>)"
proof (induction bs arbitrary: s)
  case Nil
  then show ?case by simp
next
  case (Cons b bs)
  show ?case
  proof (cases "message_raise e b")
    case True
    with Cons.prems have "err = MessageError" and "s' = s"
      by (simp_all add: and_then_def add_message_def)
    moreover have "message_raise e ((b # bs) ! 0)" using True by simp
    ultimately show ?thesis by (intro conjI exI [of _ 0]) simp_all
  next
    case False
    with Cons.prems have
      "add_messages e bs (s\<lparr>message_set := message_set s @ [system_message (now e) b]\<rparr>) =
         Inl (err, s')"
      by (simp add: and_then_def add_message_def)
    from Cons.IH [OF this] obtain k where k: "k < length bs" "message_raise e (bs ! k)"
      "s' = s\<lparr>message_set := message_set s @ system_message (now e) b #
                 map (system_message (now e)) (take k bs)\<rparr>" and err: "err = MessageError"
      by auto
    show ?thesis using k err by (intro conjI exI [of _ "Suc k"]) simp_all
  qed
qed

lemma add_messages_no_raise:
  "\<forall>b\<in>set bs. \<not> message_raise e b \<Longrightarrow>
     add_messages e bs s =
       Inr (s\<lparr>message_set := message_set s @ map (system_message (now e)) bs\<rparr>)"
proof (induction bs arbitrary: s)
  case Nil
  show ?case by simp
next
  case (Cons b bs)
  then show ?case by (simp add: and_then_def add_message_def)
qed

lemma atomic_save_Inr:
  "atomic_save e (form_save form obj) (changed_data form obj) s = Inr s1 \<Longrightarrow>
     s1 = s\<lparr>race_row := saved_row form obj s,
            ratings_updates := ratings_updates s +
              (if f_goal form \<noteq> goal obj \<or> f_custom_goal form \<noteq> custom_goal obj then 1 else 0)\<rparr>"
  unfolding atomic_save_def goal_changed_iff Let_def saved_row_def
  by (auto split: if_splits)

lemma atomic_save_Inl:
  "atomic_save e (form_save form obj) (changed_data form obj) s = Inl (err, s1) \<Longrightarrow>
     err = RatingsError \<and> s1 = s \<and> ratings_raise e \<and>
     (f_goal form \<noteq> goal obj \<or> f_custom_goal form \<noteq> custom_goal obj)"
  unfolding atomic_save_def goal_changed_iff Let_def
  by (auto split: if_splits)

lemma atomic_save_no_raise:
  "\<not> ratings_raise e \<Longrightarrow>
   atomic_save e (form_save form obj) (changed_data form obj) s =
     Inr (s\<lparr>race_row := saved_row form obj s,
            ratings_updates := ratings_updates s +
              (if f_goal form \<noteq> goal obj \<or> f_custom_goal form \<noteq> custom_goal obj then 1 else 0)\<rparr>)"
  unfolding atomic_save_def goal_changed_iff Let_def saved_row_def
  by simp

lemma form_valid_Inr:
  assumes "EditRace_form_valid e usr form obj s = Inr (resp, s')"
  shows "resp = Redirect"
    and "race_row s' = saved_row form obj s"
    and "message_set s' =
           message_set s @ map (system_message (now e)) (edit_message_bodies usr form obj)"
    and "ratings_updates s' = ratings_updates s +
           (if f_goal form \<noteq> goal obj \<or> f_custom_goal form \<noteq> custom_goal obj then 1 else 0)"
    and "broadcasts s' = broadcasts s +
           (if edit_message_bodies usr form obj = [] then 1 else 0)"
proof -
  obtain s1 where s1: "atomic_save e (form_save form obj) (changed_data form obj) s = Inr s1"
    using assms unfolding form_valid_unfold
    by (cases "atomic_save e (form_save form obj) (changed_data form obj) s")
       (simp_all add: and_then_def)
  obtain s2 where s2: "add_messages e (edit_message_bodies usr form obj) s1 = Inr s2"
    using assms s1 unfolding form_valid_unfold
    by (cases "add_messages e (edit_message_bodies usr form obj) s1")
       (simp_all add: and_then_def)
  have res: "resp = Redirect"
    "s' = (if edit_message_bodies usr form obj = [] then broadcast_data s2 else s2)"
    using assms s1 s2 unfolding form_valid_unfold by (simp_all add: and_then_def)
  note a = atomic_save_Inr [OF s1] and b = add_messages_Inr [OF s2]
  show "resp = Redirect" by (rule res)
  show "race_row s' = saved_row form obj s"
    using res(2) a b by (simp add: broadcast_data_def)
  show "message_set s' =
           message_set s @ map (system_message (now e)) (edit_message_bodies usr form obj)"
    using res(2) a b by (simp add: broadcast_data_def)
  show "ratings_updates s' = ratings_updates s +
           (if f_goal form \<noteq> goal obj \<or> f_custom_goal form \<noteq> custom_goal obj then 1 else 0)"
    using res(2) a b by (simp add: broadcast_data_def)
  show "broadcasts s' = broadcasts s +
           (if edit_message_bodies usr form obj = [] then 1 else 0)"
    using res(2) a b by (simp add: broadcast_data_def)
qed

lemma form_valid_Inl:
  assumes "EditRace_form_valid e usr form obj s = Inl (err, s')"
  shows "(err = RatingsError \<and> s' = s) \<or>
         (err = MessageError \<and> race_row s' = saved_row form obj s \<and>
          ratings_updates s' = ratings_updates s +
            (if f_goal form \<noteq> goal obj \<or> f_custom_goal form \<noteq> custom_goal obj then 1 else 0) \<and>
          (\<exists>k<length (edit_message_bodies usr form obj).
             message_set s' = message_set s @
               map (system_message (now e)) (take k (edit_message_bodies usr form obj))))"
proof (cases "atomic_save e (form_save form obj) (changed_data form obj) s")
  case (Inl x)
  with assms have "x = (err, s')" unfolding form_valid_unfold by (simp add: and_then_def)
  with Inl atomic_save_Inl show ?thesis by blast
next
  case (Inr s1)
  note a = atomic_save_Inr [OF Inr]
  from assms Inr have "add_messages e (edit_message_bodies usr form obj) s1 = Inl (err, s')"
    unfolding form_valid_unfold
    by (cases "add_messages e (edit_message_bodies usr form obj) s1")
       (simp_all add: and_then_def)
  from add_messages_Inl [OF this] obtain k where
    "err = MessageError" "k < length (edit_message_bodies usr form obj)"
    "s' = s1\<lparr>message_set := message_set s1 @
        map (system_message (now e)) (take k (edit_message_bodies usr form obj))\<rparr>"
    by blast
  with a show ?thesis by auto
qed

lemma form_valid_no_raise:
  assumes "\<not> ratings_raise e"
    and "\<forall>b\<in>set (edit_message_bodies usr form obj). \<not> message_raise e b"
  shows "succeeded (EditRace_form_valid e usr form obj s)"
  unfolding form_valid_unfold atomic_save_no_raise [OF assms(1)]
    and_then_def sum.case add_messages_no_raise [OF assms(2)] succeeded_def
  by simp


subsection \<open>The example edits\<close>

lemmas ex_defs = ex_room_def ex_race_def ex_env_def ex_env_message_raises_def
  ex_form_info_def ex_form_streaming_def ex_form_goal_def ex_room_info_saved_def
  ex_room_info_done_def ex_room_streaming_done_def ex_room_goal_done_def

lemmas run_defs = form_valid_unfold atomic_save_def goal_changed_def changed_data_def
  edit_message_bodies_def add_message_def and_then_def form_save_def Let_def
  broadcast_data_def goal_str_def get_object_def

lemma ex_info_run:
  "EditRace_form_valid ex_env ''mod'' ex_form_info ex_race ex_room =
     Inr (Redirect, ex_room_info_done)"
  by (simp add: run_defs ex_defs)

lemma ex_info_raise_run:
  "EditRace_form_valid ex_env_message_raises ''mod'' ex_form_info ex_race ex_room =
     Inl (MessageError, ex_room_info_saved)"
  by (simp add: run_defs ex_defs)

lemma ex_streaming_run:
  "EditRace_form_valid ex_env ''mod'' ex_form_streaming ex_race ex_room =
     Inr (Redirect, ex_room_streaming_done)"
  by (simp add: run_defs ex_defs)

lemma ex_goal_run:
  "EditRace_form_valid ex_env ''mod'' ex_form_goal ex_race ex_room =
     Inr (Redirect, ex_room_goal_done)"
  by (simp add: run_defs ex_defs)

subsection \<open>Versions\<close>

lemma form_valid_version:
  "EditRace_form_valid e usr form obj s = Inr (resp, s') \<Longrightarrow>
     version (race_row s') = version (race_row s) + 1"
  by (simp add: form_valid_Inr(2) saved_row_def)

lemma form_valid_errors:
  "EditRace_form_valid e usr form obj s = Inl (err, s') \<Longrightarrow>
     err = RatingsError \<or> err = MessageError"
  using form_valid_Inl by blast

lemma succeeded_Inr: "succeeded res \<Longrightarrow> \<exists>y. res = Inr y"
  by (cases res) (simp_all add: succeeded_def)

lemma two_edits_no_raise:
  assumes "\<not> ratings_raise e" and "\<forall>b. \<not> message_raise e b"
  shows "succeeded (fst (two_edits e usr1 form1 usr2 form2 s))"
    and "succeeded (snd (two_edits e usr1 form1 usr2 form2 s))"
    and "version (race_row (store_of (snd (two_edits e usr1 form1 usr2 form2 s)))) =
           version (race_row s) + 2"
proof -
  have ok: "\<And>usr form obj t. succeeded (EditRace_form_valid e usr form obj t)"
    using assms by (simp add: form_valid_no_raise)
  obtain r1 s1 where r1: "EditRace_form_valid e usr1 form1 (get_object s) s = Inr (r1, s1)"
    using succeeded_Inr [OF ok] by (metis surj_pair)
  obtain r2 s2 where r2: "EditRace_form_valid e usr2 form2 (get_object s) s1 = Inr (r2, s2)"
    using succeeded_Inr [OF ok] by (metis surj_pair)
  have t: "two_edits e usr1 form1 usr2 form2 s = (Inr (r1, s1), Inr (r2, s2))"
    by (simp add: two_edits_def Let_def r1 store_of_def r2)
  show "succeeded (fst (two_edits e usr1 form1 usr2 form2 s))"
    by (simp add: t succeeded_def)
  show "succeeded (snd (two_edits e usr1 form1 usr2 form2 s))"
    by (simp add: t succeeded_def)
  show "version (race_row (store_of (snd (two_edits e usr1 form1 usr2 form2 s)))) =
           version (race_row s) + 2"
    using form_valid_version [OF r1] form_valid_version [OF r2]
    by (simp add: t store_of_def)
qed

subsection \<open>CreateRace\<close>

lemma exclude_done_nonempty_iff:
  "exclude_done (opened_races u tbl) \<noteq> [] \<longleftrightarrow>
     (\<exists>r\<in>set tbl. opened_by r = uid u \<and> state r \<noteq> finished \<and> state r \<noteq> cancelled)"
  by (auto simp add: exclude_done_def opened_races_def filter_empty_conv)

subsection \<open>RaceChatLog\<close>

lemma join_lines_concat:
  "join_lines ls =
     (case ls of [] \<Rightarrow> [] | l # rest \<Rightarrow> l @ concat (map ((#) (CHR 0x0A)) rest))"
  by (induction ls rule: join_lines.induct) simp_all

lemma split_lines_no_newline:
  "CHR 0x0A \<notin> set l \<Longrightarrow> split_lines (l @ CHR 0x0A # rest) = l # split_lines rest"
  by (induction l) auto

lemma split_lines_single:
  "CHR 0x0A \<notin> set l \<Longrightarrow> split_lines l = [l]"
  by (induction l) auto

lemma split_join_lines:
  "ls \<noteq> [] \<Longrightarrow> \<forall>l\<in>set ls. CHR 0x0A \<notin> set l \<Longrightarrow> split_lines (join_lines ls) = ls"
proof (induction ls rule: join_lines.induct)
  case 1
  then show ?case by simp
next
  case (2 x)
  then show ?case by (simp add: split_lines_single)
next
  case (3 x y ys)
  then show ?case by (simp add: split_lines_no_newline)
qed

lemma message_step_length:
  "length (message_step ms op) = length ms + (if is_post op then 1 else 0)"
  by (cases op) (simp_all add: delete_message_def)

lemma message_step_same:
  assumes "k < length ms"
  shows "(message_step ms op ! k)\<lparr>deleted := True\<rparr> = (ms ! k)\<lparr>deleted := True\<rparr>"
    and "deleted (ms ! k) \<Longrightarrow> deleted (message_step ms op ! k)"
proof -
  show "(message_step ms op ! k)\<lparr>deleted := True\<rparr> = (ms ! k)\<lparr>deleted := True\<rparr>"
  proof (cases op)
    case (Post m)
    then show ?thesis using assms by (simp add: nth_append)
  next
    case (Delete i)
    then show ?thesis using assms
      by (cases "k = i") (simp_all add: delete_message_def)
  qed
  show "deleted (ms ! k) \<Longrightarrow> deleted (message_step ms op ! k)"
  proof (cases op)
    case (Post m)
    assume "deleted (ms ! k)"
    with Post show ?thesis using assms by (simp add: nth_append)
  next
    case (Delete i)
    assume "deleted (ms ! k)"
    with Delete show ?thesis using assms
      by (cases "k = i") (simp_all add: delete_message_def)
  qed
qed

lemma run_ops_snoc: "run_ops ms (ops @ [op]) = message_step (run_ops ms ops) op"
  by (simp add: run_ops_def)

lemma run_ops_length:
  "length (run_ops ms ops) = length ms + length (filter is_post ops)"
proof (induction ops rule: rev_induct)
  case Nil
  show ?case by (simp add: run_ops_def)
next
  case (snoc op ops)
  then show ?case by (simp add: run_ops_snoc message_step_length)
qed

lemma run_ops_same:
  assumes "k < length ms"
  shows "(run_ops ms ops ! k)\<lparr>deleted := True\<rparr> = (ms ! k)\<lparr>deleted := True\<rparr> \<and>
         (deleted (ms ! k) \<longrightarrow> deleted (run_ops ms ops ! k))"
proof (induction ops rule: rev_induct)
  case Nil
  show ?case by (simp add: run_ops_def)
next
  case (snoc op ops)
  have k: "k < length (run_ops ms ops)"
    using assms by (simp add: run_ops_length)
  show ?case
    unfolding run_ops_snoc
    using message_step_same [OF k, of op] snoc.IH by simp
qed

lemma run_ops_post:
  "run_ops ms (ops @ [Post m]) ! length (run_ops ms ops) = m\<lparr>deleted := False\<rparr>"
  by (simp add: run_ops_snoc)

lemma run_ops_delete:
  "i < length ms \<Longrightarrow> run_ops ms [Delete i] = ms[i := (ms ! i)\<lparr>deleted := True\<rparr>]"
  by (simp add: run_ops_def delete_message_def)

lemma chat_log_exists:
  "chat_log_messages ms (sort_key posted_at (filter (\<lambda>m. \<not> deleted m) ms))"
  by (simp add: chat_log_messages_def)

lemma chat_log_set:
  assumes "chat_log_messages ms rs"
  shows "set rs = {m \<in> set ms. \<not> deleted m}"
proof -
  from assms have "set rs = set (filter (\<lambda>m. \<not> deleted m) ms)"
    unfolding chat_log_messages_def by (metis mset_eq_setD)
  then show ?thesis by simp
qed

lemma chat_log_count:
  assumes "chat_log_messages ms rs"
  shows "count (mset rs) m = (if deleted m then 0 else count (mset ms) m)"
  using assms by (simp add: chat_log_messages_def)

lemma chat_log_mono:
  assumes "chat_log_messages ms rs" and "i < j" and "j < length rs"
  shows "posted_at (rs ! i) \<le> posted_at (rs ! j)"
proof -
  have "sorted (map posted_at rs)"
    using assms(1) by (simp add: chat_log_messages_def)
  then have "map posted_at rs ! i \<le> map posted_at rs ! j"
    using assms(2,3) by (simp add: sorted_iff_nth_mono)
  then show ?thesis using assms(2,3) by simp
qed

lemma chat_log_times_unique:
  assumes "chat_log_messages ms rs" and "chat_log_messages ms rs'"
  shows "map posted_at rs' = map posted_at rs"
proof -
  have m: "mset (map posted_at rs) = mset (map posted_at rs')"
    using assms by (simp add: chat_log_messages_def)
  have "sort (map posted_at rs') = map posted_at rs"
    using m assms(1) by (intro properties_for_sort) (simp_all add: chat_log_messages_def)
  moreover have "sort (map posted_at rs') = map posted_at rs'"
    using assms(2) by (simp add: chat_log_messages_def sorted_sort_id)
  ultimately show ?thesis by simp
qed

lemma chat_log_none:
  assumes "\<forall>m\<in>set ms. deleted m" and "chat_log_messages ms rs"
  shows "rs = []"
proof -
  have "{m \<in> set ms. \<not> deleted m} = {}"
    using assms(1) by simp
  then have "set rs = {}"
    by (simp only: chat_log_set [OF assms(2)])
  then show ?thesis by simp
qed

lemma chat_log_after_delete:
  assumes "i < length ms"
  shows "chat_log_messages (ms[i := (ms ! i)\<lparr>deleted := True\<rparr>]) rs \<longleftrightarrow>
         chat_log_messages (take i ms @ drop (Suc i) ms) rs"
proof -
  have "ms[i := (ms ! i)\<lparr>deleted := True\<rparr>] =
      take i ms @ (ms ! i)\<lparr>deleted := True\<rparr> # drop (Suc i) ms"
    using assms by (rule upd_conv_take_nth_drop)
  then show ?thesis by (simp add: chat_log_messages_def)
qed

lemma ex_chat_log: "chat_log_messages ex_messages [ex_msg_start, ex_msg_oops, ex_msg_hi]"
  by (simp add: chat_log_messages_def ex_messages_def ex_msg_start_def ex_msg_oops_def
      ex_msg_hi_def)

lemma ex_lines:
  "map (render_line show_nat) [ex_msg_start, ex_msg_oops, ex_msg_hi] =
     [''[1000000] The race has begun.'', ''[2000000] bob: oops'', ''[3000000] alice: hi'']"
  by (simp add: render_line_def ex_msg_start_def ex_msg_oops_def ex_msg_hi_def
      user_or_bot_def replace_microsecond0_def show_nat.simps)

lemma ex_export:
  "RaceChatLog_get show_nat [ex_msg_start, ex_msg_oops, ex_msg_hi] =
     ''[1000000] The race has begun.'' @ [CHR 0x0A] @ ''[2000000] bob: oops'' @
     [CHR 0x0A] @ ''[3000000] alice: hi''"
  unfolding RaceChatLog_get_def ex_lines by simp

lemma ex_no_newline:
  "\<forall>m\<in>set [ex_msg_start, ex_msg_oops, ex_msg_hi]. CHR 0x0A \<notin> set (render_line show_nat m)"
proof -
  have "\<forall>l\<in>set (map (render_line show_nat) [ex_msg_start, ex_msg_oops, ex_msg_hi]).
      CHR 0x0A \<notin> set l"
    unfolding ex_lines by simp
  then show ?thesis by simp
qed

lemma ex_run:
  "run_ops ex_messages [Delete 1, Post ex_msg_late] =
     [ex_msg_start, ex_msg_oops\<lparr>deleted := True\<rparr>, ex_msg_hi, ex_msg_late]"
  by (simp add: run_ops_def delete_message_def ex_messages_def ex_msg_late_def)

lemma ex_chat_log_deleted:
  "chat_log_messages (take 1 ex_messages @ drop (Suc 1) ex_messages) [ex_msg_start, ex_msg_hi]"
  by (simp add: chat_log_messages_def ex_messages_def ex_msg_start_def ex_msg_hi_def)

subsection \<open>Category.current_races\<close>

lemma state_sort_group:
  "\<not> (st = finished \<or> st = cancelled) \<Longrightarrow> state_sort st = listing_group st"
  by (cases st) (simp_all add: state_sort_def listing_group_def)

lemma current_races_not_done:
  "current_races c tbl rs \<Longrightarrow> r \<in> set rs \<Longrightarrow>
     \<not> (state r = finished \<or> state r = cancelled)"
proof -
  assume cr: "current_races c tbl rs" and r: "r \<in> set rs"
  from cr have "set rs = set (exclude_done (race_set c tbl))"
    unfolding current_races_def by (metis mset_eq_setD)
  with r show ?thesis by (simp add: exclude_done_def)
qed

lemma current_races_set:
  assumes "current_races c tbl rs"
  shows "set rs = {r \<in> set tbl. category r = category_slug c \<and>
                     state r \<noteq> finished \<and> state r \<noteq> cancelled}"
proof -
  from assms have "set rs = set (exclude_done (race_set c tbl))"
    unfolding current_races_def by (metis mset_eq_setD)
  then show ?thesis by (auto simp add: exclude_done_def race_set_def)
qed

lemma current_races_key_mono:
  assumes "current_races c tbl rs" and "i < j" and "j < length rs"
  shows "listing_key (rs ! i) \<le> listing_key (rs ! j)"
proof -
  have "sorted (map listing_key rs)"
    using assms(1) by (simp add: current_races_def)
  then have "map listing_key rs ! i \<le> map listing_key rs ! j"
    using assms(2,3) by (simp add: sorted_iff_nth_mono)
  then show ?thesis using assms(2,3) by simp
qed

lemma current_races_pair_order:
  assumes "current_races c tbl rs" and "i < j" and "j < length rs"
  shows "listing_group (state (rs ! i)) \<le> listing_group (state (rs ! j)) \<and>
         (listing_group (state (rs ! i)) = listing_group (state (rs ! j)) \<longrightarrow>
          opened_at (rs ! i) \<le> opened_at (rs ! j))"
proof -
  let ?a = "rs ! i" and ?b = "rs ! j"
  have "?a \<in> set rs" and "?b \<in> set rs"
    using assms(2,3) by simp_all
  then have ga: "state_sort (state ?a) = listing_group (state ?a)"
    and gb: "state_sort (state ?b) = listing_group (state ?b)"
    using current_races_not_done [OF assms(1)] by (simp_all add: state_sort_group)
  have "listing_key ?a \<le> listing_key ?b"
    using assms by (rule current_races_key_mono)
  then show ?thesis
    by (auto simp add: listing_key_def ga gb less_eq_prod_def)
qed

lemma current_races_exists:
  "current_races c tbl (sort_key listing_key (exclude_done (race_set c tbl)))"
  by (simp add: current_races_def)

lemma current_races_keys_unique:
  assumes "current_races c tbl rs" and "current_races c tbl rs'"
  shows "map listing_key rs = map listing_key rs'"
proof -
  have m: "mset (map listing_key rs) = mset (map listing_key rs')"
    using assms by (simp add: current_races_def)
  have "sort (map listing_key rs') = map listing_key rs"
    using m assms(1) by (intro properties_for_sort) (simp_all add: current_races_def)
  moreover have "sort (map listing_key rs') = map listing_key rs'"
    using assms(2) by (simp add: current_races_def sorted_sort_id)
  ultimately show ?thesis by simp
qed

lemma state_sort_default:
  "state_sort st = 0 \<longleftrightarrow> st = finished \<or> st = cancelled"
  by (cases st) (simp_all add: state_sort_def)

lemma ex_tie_kept:
  "exclude_done (race_set ex_category [ex_tie_a, ex_tie_b]) = [ex_tie_a, ex_tie_b]"
  by (simp add: exclude_done_def race_set_def ex_tie_a_def ex_tie_b_def ex_race_def
      ex_category_def)

lemma ex_tie_keys:
  "listing_key ex_tie_a = (1, 100)" "listing_key ex_tie_b = (1, 100)"
  by (simp_all add: listing_key_def state_sort_def ex_tie_a_def ex_tie_b_def ex_race_def)

lemma ex_tie_distinct: "ex_tie_a \<noteq> ex_tie_b"
  by (simp add: ex_tie_a_def ex_tie_b_def ex_race_def)

lemma ex_tie_listings:
  "current_races ex_category [ex_tie_a, ex_tie_b] [ex_tie_a, ex_tie_b]"
  "current_races ex_category [ex_tie_a, ex_tie_b] [ex_tie_b, ex_tie_a]"
  unfolding current_races_def ex_tie_kept by (simp_all add: ex_tie_keys)

lemma ex_kept:
  "exclude_done (race_set ex_category ex_table) =
     [ex_race_inprog, ex_race, ex_race_pending, ex_race_inv]"
  by (simp add: exclude_done_def race_set_def ex_table_def ex_category_def ex_race_inv_def
      ex_race_inprog_def ex_race_pending_def ex_race_finished_def ex_race_elsewhere_def
      ex_race_def)

lemma ex_keys:
  "listing_key ex_race_inv = (1, 80)" "listing_key ex_race = (1, 100)"
  "listing_key ex_race_inprog = (2, 50)" "listing_key ex_race_pending = (2, 60)"
  by (simp_all add: listing_key_def state_sort_def ex_race_inv_def ex_race_inprog_def
      ex_race_pending_def ex_race_def)

lemma ex_current_races:
  "current_races ex_category ex_table
     [ex_race_inv, ex_race, ex_race_inprog, ex_race_pending]"
  unfolding current_races_def ex_kept by (simp add: ex_keys less_eq_prod_def)

subsection \<open>ManageCategory\<close>


subsection \<open>Moderators and ownership\<close>

lemma user_in_m2m_add:
  "user_in a (m2m_add u xs) \<longleftrightarrow> user_in a xs \<or> uid a = uid u"
  by (auto simp add: user_in_def m2m_add_def)

lemma user_in_m2m_remove:
  "user_in a (m2m_remove u xs) \<longleftrightarrow> user_in a xs \<and> uid a \<noteq> uid u"
  by (auto simp add: user_in_def m2m_remove_def)

lemma m2m_add_member: "user_in u xs \<Longrightarrow> m2m_add u xs = xs"
  by (simp add: m2m_add_def)

lemma AddModerator_rejects:
  "user_eq u (owner (cat s)) \<or> user_in u (ModPageMixin_moderators (cat s)) \<Longrightarrow>
     AddModerator_form_valid ar act u s =
       Inl (Rejected (name u @ '' is already a moderator.''), s)"
  by (simp add: AddModerator_form_valid_def)

lemma AddModerator_moderators:
  "moderators (cat (store_of (AddModerator_form_valid ar act u s))) = moderators (cat s) \<or>
   (\<not> user_eq u (owner (cat s)) \<and>
    moderators (cat (store_of (AddModerator_form_valid ar act u s))) =
      m2m_add u (moderators (cat s)))"
  by (simp add: AddModerator_form_valid_def audit_create_def and_then_def store_of_def)

lemma AddModerator_owner:
  "owner (cat (store_of (AddModerator_form_valid ar act u s))) = owner (cat s)"
  by (simp add: AddModerator_form_valid_def audit_create_def and_then_def store_of_def)

lemma AddModerator_existing:
  "user_in u (moderators (cat s)) \<Longrightarrow>
     moderators (cat (store_of (AddModerator_form_valid ar act u s))) = moderators (cat s)"
  using AddModerator_moderators [of ar act u s] by (auto simp add: m2m_add_member)

lemma AddModerator_invariant:
  assumes "owner_not_moderator s"
  shows "owner_not_moderator (store_of (AddModerator_form_valid ar act u s))"
  using assms AddModerator_moderators [of ar act u s]
  unfolding owner_not_moderator_def AddModerator_owner
  by (auto simp add: user_in_m2m_add user_eq_def)

lemma RemoveModerator_invariant:
  assumes "owner_not_moderator s"
  shows "owner_not_moderator (store_of (RemoveModerator_form_valid ar act u s))"
  using assms
  by (simp add: owner_not_moderator_def RemoveModerator_form_valid_def audit_create_def
      and_then_def store_of_def user_in_m2m_remove)

lemma transfer_block_owner:
  "owner (cat (transfer_block act u s)) = u"
  by (simp add: transfer_block_def Let_def)

lemma transfer_block_not_moderator:
  "\<not> user_in u (moderators (cat (transfer_block act u s)))"
  by (simp add: transfer_block_def Let_def user_in_m2m_remove)

lemma transfer_block_audit:
  "auditlog (transfer_block act u s) = auditlog s @
     [\<lparr>actor = uid act, action = ''owner_change'', subject = None,
       old_value = Some (uid (owner (cat s))), new_value = Some (uid u)\<rparr>]"
  by (simp add: transfer_block_def Let_def)

lemma TransferOwner_store:
  "store_of (TransferOwner_form_valid ar act u s) = (if ar then s else transfer_block act u s)"
  by (simp add: TransferOwner_form_valid_def Let_def store_of_def)

lemma TransferOwner_invariant:
  assumes "owner_not_moderator s"
  shows "owner_not_moderator (store_of (TransferOwner_form_valid ar act u s))"
  using assms transfer_block_not_moderator [of u act s]
  by (simp add: TransferOwner_store owner_not_moderator_def transfer_block_owner)

section \<open>Properties of the race views\<close>

text \<open>
  C1. A room in a terminal state (finished or cancelled) fails the permission test of
  EditRace: the request ends with a refusal and the store untouched, whatever the form
  holds. A room in any other state passes the test for a user who can monitor the race,
  and the form is then handled by \<open>EditRace_form_valid\<close>. So an edit that ends with a
  response was made on a room that is not done.
\<close>

theorem EditRace_rejected_when_done:
  "(state (race_row s) = finished \<or> state (race_row s) = cancelled \<longrightarrow>
      \<not> EditRace_test_func can_monitor (get_object s) \<and>
      EditRace_post e can_monitor usr form s = Inl (PermissionDenied, s)) \<and>
   (state (race_row s) \<noteq> finished \<and> state (race_row s) \<noteq> cancelled \<and> can_monitor \<longrightarrow>
      EditRace_test_func can_monitor (get_object s) \<and>
      EditRace_post e can_monitor usr form s =
        EditRace_form_valid e usr form (get_object s) s) \<and>
   (succeeded (EditRace_post e can_monitor usr form s) \<longrightarrow>
      state (race_row s) \<noteq> finished \<and> state (race_row s) \<noteq> cancelled \<and> can_monitor)"
  by (auto simp add: EditRace_post_def EditRace_test_func_def is_done_def get_object_def
      succeeded_def Let_def split: if_splits)

theorem EditRace_rejected_when_done_witness:
  "EditRace_post ex_env True ''mod'' ex_form_info ex_room_finished =
     Inl (PermissionDenied, ex_room_finished) \<and>
   EditRace_test_func True (get_object ex_room) \<and>
   EditRace_post ex_env True ''mod'' ex_form_info ex_room =
     EditRace_form_valid ex_env ''mod'' ex_form_info (get_object ex_room) ex_room"
  using EditRace_rejected_when_done [of ex_room_finished True ex_env "''mod''" ex_form_info]
    EditRace_rejected_when_done [of ex_room True ex_env "''mod''" ex_form_info]
  by (simp add: ex_room_finished_def ex_room_def ex_race_def)

text \<open>
  C3. The system messages of an edit are not written in the transaction that saves the
  row. The block under \<^verbatim>\<open>with atomic()\<close> holds the save and the rating update only, and
  the messages are added after it. The room below is edited with a changed
  \<^verbatim>\<open>info\<close> while adding a message raises: the request ends with the error, the row is
  stored with the new information and the next version, and the room has no message for
  the change.
\<close>

theorem EditRace_commit_without_message:
  "EditRace_form_valid ex_env_message_raises ''mod'' ex_form_info (get_object ex_room) ex_room =
     Inl (MessageError, ex_room_info_saved) \<and>
   info (race_row ex_room_info_saved) = ''Bring snacks'' \<and>
   info (race_row ex_room) = [] \<and>
   version (race_row ex_room_info_saved) = version (race_row ex_room) + 1 \<and>
   message_set ex_room_info_saved = message_set ex_room"
  using ex_info_raise_run by (simp add: get_object_def ex_defs)

text \<open>
  C3, as the code has it. An edit that ends with a response has stored the row and has
  appended one system message for each changed field among goal, information, streaming
  requirement and chat delay, in that order, after the messages the room had. An edit
  that ends with an error has either changed nothing (the rating update raised and the
  transaction was rolled back) or has stored the row, kept the rating update that
  belongs to it, and appended a proper prefix of its messages (adding a message raised).
\<close>

theorem EditRace_save_then_messages:
  "(EditRace_form_valid e usr form obj s = Inr (resp, s') \<longrightarrow>
      race_row s' = saved_row form obj s \<and>
      message_set s' =
        message_set s @ map (system_message (now e)) (edit_message_bodies usr form obj)) \<and>
   (EditRace_form_valid e usr form obj s = Inl (err, s') \<longrightarrow>
      (err = RatingsError \<and> s' = s) \<or>
      (err = MessageError \<and> race_row s' = saved_row form obj s \<and>
       ratings_updates s' = ratings_updates s +
         (if f_goal form \<noteq> goal obj \<or> f_custom_goal form \<noteq> custom_goal obj then 1 else 0) \<and>
       (\<exists>k<length (edit_message_bodies usr form obj).
          message_set s' = message_set s @
            map (system_message (now e)) (take k (edit_message_bodies usr form obj)))))"
proof (intro conjI impI)
  assume ok: "EditRace_form_valid e usr form obj s = Inr (resp, s')"
  show "race_row s' = saved_row form obj s" by (rule form_valid_Inr(2) [OF ok])
  show "message_set s' =
      message_set s @ map (system_message (now e)) (edit_message_bodies usr form obj)"
    by (rule form_valid_Inr(3) [OF ok])
next
  assume "EditRace_form_valid e usr form obj s = Inl (err, s')"
  then show "(err = RatingsError \<and> s' = s) \<or>
      (err = MessageError \<and> race_row s' = saved_row form obj s \<and>
       ratings_updates s' = ratings_updates s +
         (if f_goal form \<noteq> goal obj \<or> f_custom_goal form \<noteq> custom_goal obj then 1 else 0) \<and>
       (\<exists>k<length (edit_message_bodies usr form obj).
          message_set s' = message_set s @
            map (system_message (now e)) (take k (edit_message_bodies usr form obj))))"
    by (rule form_valid_Inl)
qed

theorem EditRace_save_then_messages_witness:
  "EditRace_form_valid ex_env ''mod'' ex_form_info ex_race ex_room =
     Inr (Redirect, ex_room_info_done) \<and>
   race_row ex_room_info_done = saved_row ex_form_info ex_race ex_room \<and>
   message_set ex_room_info_done =
     message_set ex_room @
       map (system_message (now ex_env)) (edit_message_bodies ''mod'' ex_form_info ex_race) \<and>
   EditRace_form_valid ex_env_message_raises ''mod'' ex_form_info ex_race ex_room =
     Inl (MessageError, ex_room_info_saved) \<and>
   race_row ex_room_info_saved = saved_row ex_form_info ex_race ex_room"
  using EditRace_save_then_messages
      [where e = ex_env and usr = "''mod''" and form = ex_form_info and obj = ex_race
         and s = ex_room and resp = Redirect and s' = ex_room_info_done]
    EditRace_save_then_messages
      [where e = ex_env_message_raises and usr = "''mod''" and form = ex_form_info
         and obj = ex_race and s = ex_room and err = MessageError
         and s' = ex_room_info_saved]
    ex_info_run ex_info_raise_run
  by simp

text \<open>
  C4. An edit that ends with a response has run the rating recalculation exactly once
  when the goal or the custom goal changed, and not at all when neither changed,
  whatever else changed.
\<close>

theorem ratings_update_iff_goal_changed:
  "EditRace_form_valid e usr form obj s = Inr (resp, s') \<Longrightarrow>
     ratings_updates s' = ratings_updates s +
       (if f_goal form \<noteq> goal obj \<or> f_custom_goal form \<noteq> custom_goal obj then 1 else 0)"
  by (rule form_valid_Inr(4))

theorem ratings_update_iff_goal_changed_witness:
  "EditRace_form_valid ex_env ''mod'' ex_form_goal ex_race ex_room =
     Inr (Redirect, ex_room_goal_done) \<and>
   ratings_updates ex_room_goal_done = ratings_updates ex_room + 1 \<and>
   EditRace_form_valid ex_env ''mod'' ex_form_info ex_race ex_room =
     Inr (Redirect, ex_room_info_done) \<and>
   ratings_updates ex_room_info_done = ratings_updates ex_room"
  using ratings_update_iff_goal_changed [OF ex_goal_run]
    ratings_update_iff_goal_changed [OF ex_info_run] ex_goal_run ex_info_run
  by (simp add: ex_form_goal_def ex_form_info_def ex_race_def)

text \<open>
  C5. The code has no version check. \<^verbatim>\<open>race.version = F('version') + 1\<close> adds one to
  whatever version is stored when the row is saved; nothing compares it with the version
  the moderator read, and no request ends with a version conflict. Two moderators who
  read the room below at version 5 and submit one after the other both get their
  response, and the room ends at version 7.
\<close>

theorem two_edits_both_commit:
  "version (race_row ex_room) = 5 \<and>
   succeeded (fst (two_edits ex_env ''alice'' ex_form_info ''bob'' ex_form_streaming ex_room)) \<and>
   succeeded (snd (two_edits ex_env ''alice'' ex_form_info ''bob'' ex_form_streaming ex_room)) \<and>
   version (race_row (store_of
     (snd (two_edits ex_env ''alice'' ex_form_info ''bob'' ex_form_streaming ex_room)))) = 7"
proof -
  have e: "\<not> ratings_raise ex_env" "\<forall>b. \<not> message_raise ex_env b"
    by (simp_all add: ex_env_def)
  have v: "version (race_row ex_room) = 5" by (simp add: ex_room_def ex_race_def)
  show ?thesis
    using two_edits_no_raise [OF e, of "''alice''" ex_form_info "''bob''" ex_form_streaming ex_room] v
    by simp
qed

text \<open>
  C5, as the code has it. Every edit that ends with a response has raised the stored
  version by exactly one over the version stored when it saved, whichever copy of the
  row its form was built on. An edit ends with an error only when the rating update or
  the adding of a message raises. When neither raises, two edits built on the same read
  of the room both end with a response and leave the version two above the one they read.
\<close>

theorem EditRace_version_increment:
  "(EditRace_form_valid e usr form obj s = Inr (resp, s') \<longrightarrow>
      version (race_row s') = version (race_row s) + 1) \<and>
   (EditRace_form_valid e usr form obj s = Inl (err, s') \<longrightarrow>
      err = RatingsError \<or> err = MessageError) \<and>
   (\<not> ratings_raise e \<and> (\<forall>b. \<not> message_raise e b) \<longrightarrow>
      succeeded (fst (two_edits e usr_a form_a usr_b form_b s)) \<and>
      succeeded (snd (two_edits e usr_a form_a usr_b form_b s)) \<and>
      version (race_row (store_of (snd (two_edits e usr_a form_a usr_b form_b s)))) =
        version (race_row s) + 2)"
proof (intro conjI impI)
  assume "EditRace_form_valid e usr form obj s = Inr (resp, s')"
  then show "version (race_row s') = version (race_row s) + 1"
    by (rule form_valid_version)
next
  assume "EditRace_form_valid e usr form obj s = Inl (err, s')"
  then show "err = RatingsError \<or> err = MessageError"
    by (rule form_valid_errors)
next
  assume h: "\<not> ratings_raise e \<and> (\<forall>b. \<not> message_raise e b)"
  then have h1: "\<not> ratings_raise e" and h2: "\<forall>b. \<not> message_raise e b"
    by simp_all
  show "succeeded (fst (two_edits e usr_a form_a usr_b form_b s))"
    by (rule two_edits_no_raise(1) [OF h1 h2])
  show "succeeded (snd (two_edits e usr_a form_a usr_b form_b s))"
    by (rule two_edits_no_raise(2) [OF h1 h2])
  show "version (race_row (store_of (snd (two_edits e usr_a form_a usr_b form_b s)))) =
      version (race_row s) + 2"
    by (rule two_edits_no_raise(3) [OF h1 h2])
qed

theorem EditRace_version_increment_witness:
  "EditRace_form_valid ex_env ''mod'' ex_form_info ex_race ex_room =
     Inr (Redirect, ex_room_info_done) \<and>
   version (race_row ex_room_info_done) = version (race_row ex_room) + 1 \<and>
   EditRace_form_valid ex_env_message_raises ''mod'' ex_form_info ex_race ex_room =
     Inl (MessageError, ex_room_info_saved) \<and>
   \<not> ratings_raise ex_env \<and> (\<forall>b. \<not> message_raise ex_env b) \<and>
   succeeded (snd (two_edits ex_env ''alice'' ex_form_info ''bob'' ex_form_streaming ex_room)) \<and>
   version (race_row (store_of
     (snd (two_edits ex_env ''alice'' ex_form_info ''bob'' ex_form_streaming ex_room)))) =
     version (race_row ex_room) + 2"
  using EditRace_version_increment
      [where e = ex_env and usr = "''mod''" and form = ex_form_info and obj = ex_race
         and s = ex_room and resp = Redirect and s' = ex_room_info_done
         and usr_a = "''alice''" and form_a = ex_form_info and usr_b = "''bob''"
         and form_b = ex_form_streaming]
    ex_info_run ex_info_raise_run
  by (simp add: ex_env_def)

text \<open>
  C6. On an open room, an edit whose only changed field is \<^verbatim>\<open>streaming_required\<close>
  and that ends with a response has appended exactly one system message, "Streaming is
  now required for this race." when the flag is now set and "Streaming is now NOT
  required for this race." when it is now unset, and has raised the version by exactly
  one. Such an edit by a user who can monitor the race does end with a response when
  adding that message does not raise.
\<close>

theorem streaming_edit_one_message:
  assumes "state (race_row s) = open_state"
    and "f_goal form = goal (race_row s)"
    and "f_custom_goal form = custom_goal (race_row s)"
    and "f_info form = info (race_row s)"
    and "f_chat_message_delay form = chat_message_delay (race_row s)"
    and "f_streaming_required form \<noteq> streaming_required (race_row s)"
  shows "(can_monitor \<and>
          \<not> message_raise e (if f_streaming_required form
                              then ''Streaming is now required for this race.''
                              else ''Streaming is now NOT required for this race.'') \<longrightarrow>
          succeeded (EditRace_post e can_monitor usr form s)) \<and>
         (EditRace_post e can_monitor usr form s = Inr (resp, s') \<longrightarrow>
          message_set s' = message_set s @
            [system_message (now e)
               (if f_streaming_required form
                then ''Streaming is now required for this race.''
                else ''Streaming is now NOT required for this race.'')] \<and>
          version (race_row s') = version (race_row s) + 1)"
proof -
  let ?body = "if f_streaming_required form
               then ''Streaming is now required for this race.''
               else ''Streaming is now NOT required for this race.''"
  have bodies: "edit_message_bodies usr form (get_object s) = [?body]"
    using assms by (simp add: edit_message_bodies_def get_object_def)
  have gc: "\<not> goal_changed (changed_data form (get_object s))"
    using assms by (simp add: goal_changed_iff get_object_def)
  have a: "atomic_save e (form_save form (get_object s)) (changed_data form (get_object s)) s =
      Inr (s\<lparr>race_row := saved_row form (get_object s) s\<rparr>)"
    using gc by (simp add: atomic_save_def Let_def saved_row_def)
  have post: "can_monitor \<Longrightarrow> EditRace_post e can_monitor usr form s =
      EditRace_form_valid e usr form (get_object s) s"
    using assms(1)
    by (simp add: EditRace_post_def EditRace_test_func_def is_done_def get_object_def)
  have denied: "\<not> can_monitor \<Longrightarrow> EditRace_post e can_monitor usr form s =
      Inl (PermissionDenied, s)"
    by (simp add: EditRace_post_def EditRace_test_func_def Let_def)
  show ?thesis
  proof (intro conjI impI)
    assume h: "can_monitor \<and> \<not> message_raise e ?body"
    then have cm: can_monitor and nr: "\<not> message_raise e ?body" by simp_all
    show "succeeded (EditRace_post e can_monitor usr form s)"
      unfolding post [OF cm] form_valid_unfold a bodies
      using nr by (simp add: and_then_def add_message_def succeeded_def)
  next
    assume r: "EditRace_post e can_monitor usr form s = Inr (resp, s')"
    then have cm: can_monitor using denied by (cases can_monitor) simp_all
    from r have fv: "EditRace_form_valid e usr form (get_object s) s = Inr (resp, s')"
      unfolding post [OF cm] .
    show "message_set s' = message_set s @ [system_message (now e) ?body]"
      using form_valid_Inr(3) [OF fv] by (simp add: bodies)
    show "version (race_row s') = version (race_row s) + 1"
      by (rule form_valid_version [OF fv])
  qed
qed

theorem streaming_edit_one_message_witness:
  "state (race_row ex_room) = open_state \<and>
   \<not> streaming_required (race_row ex_room) \<and> f_streaming_required ex_form_streaming \<and>
   EditRace_post ex_env True ''mod'' ex_form_streaming ex_room =
     Inr (Redirect, ex_room_streaming_done) \<and>
   message_set ex_room_streaming_done = message_set ex_room @
     [system_message (now ex_env) ''Streaming is now required for this race.''] \<and>
   version (race_row ex_room_streaming_done) = version (race_row ex_room) + 1"
proof -
  have run: "EditRace_post ex_env True ''mod'' ex_form_streaming ex_room =
      Inr (Redirect, ex_room_streaming_done)"
    using ex_streaming_run
    by (simp add: EditRace_post_def EditRace_test_func_def is_done_def get_object_def
        ex_room_def ex_race_def)
  show ?thesis
    using streaming_edit_one_message
      [where s = ex_room and form = ex_form_streaming and e = ex_env and can_monitor = True
         and usr = "''mod''" and resp = Redirect and s' = ex_room_streaming_done]
      run
    by (simp add: ex_room_def ex_race_def ex_form_streaming_def)
qed

text \<open>
  C9. A user who cannot moderate the category and has opened a race that is neither
  finished nor cancelled gets the form error "You can only have one open race room at a
  time." and the race table and the action log stay as they were. A user who can
  moderate the category is not held to this: the race is created. And when a user who
  cannot moderate does get a race created, every race that user had opened was finished
  or cancelled.
\<close>

theorem CreateRace_one_open_race:
  "(\<not> can_moderate \<and>
    (\<exists>r\<in>set (races s). opened_by r = uid u \<and> state r \<noteq> finished \<and> state r \<noteq> cancelled) \<longrightarrow>
      CreateRace_form_valid can_moderate cat_slug new_slug u invit form_race s =
        Inl (FormError ''You can only have one open race room at a time.'', s)) \<and>
   (can_moderate \<longrightarrow>
      succeeded (CreateRace_form_valid can_moderate cat_slug new_slug u invit form_race s) \<and>
      length (races (store_of
        (CreateRace_form_valid can_moderate cat_slug new_slug u invit form_race s))) =
        length (races s) + 1) \<and>
   (\<not> can_moderate \<and>
    succeeded (CreateRace_form_valid can_moderate cat_slug new_slug u invit form_race s) \<longrightarrow>
      (\<forall>r\<in>set (races s). opened_by r = uid u \<longrightarrow> state r = finished \<or> state r = cancelled))"
proof (intro conjI impI)
  assume "\<not> can_moderate \<and>
    (\<exists>r\<in>set (races s). opened_by r = uid u \<and> state r \<noteq> finished \<and> state r \<noteq> cancelled)"
  then show "CreateRace_form_valid can_moderate cat_slug new_slug u invit form_race s =
        Inl (FormError ''You can only have one open race room at a time.'', s)"
    by (simp add: CreateRace_form_valid_def exclude_done_nonempty_iff)
next
  assume cm: can_moderate
  show "succeeded (CreateRace_form_valid can_moderate cat_slug new_slug u invit form_race s)"
    using cm by (simp add: CreateRace_form_valid_def succeeded_def Let_def)
  show "length (races (store_of
        (CreateRace_form_valid can_moderate cat_slug new_slug u invit form_race s))) =
        length (races s) + 1"
    using cm by (simp add: CreateRace_form_valid_def store_of_def Let_def)
next
  assume h: "\<not> can_moderate \<and>
    succeeded (CreateRace_form_valid can_moderate cat_slug new_slug u invit form_race s)"
  then have "\<not> exclude_done (opened_races u (races s)) \<noteq> []"
    by (auto simp add: CreateRace_form_valid_def succeeded_def split: if_splits)
  then show "\<forall>r\<in>set (races s). opened_by r = uid u \<longrightarrow> state r = finished \<or> state r = cancelled"
    unfolding exclude_done_nonempty_iff by blast
qed

theorem CreateRace_one_open_race_witness:
  "CreateRace_form_valid False ''smw'' ''funky-peach-7777'' ex_plain False ex_new_race ex_site =
     Inl (FormError ''You can only have one open race room at a time.'', ex_site) \<and>
   succeeded
     (CreateRace_form_valid True ''smw'' ''funky-peach-7777'' ex_plain False ex_new_race ex_site) \<and>
   length (races (store_of
     (CreateRace_form_valid True ''smw'' ''funky-peach-7777'' ex_plain False ex_new_race
        ex_site))) = 3 \<and>
   succeeded
     (CreateRace_form_valid False ''smw'' ''funky-peach-7777'' ex_staff False ex_new_race ex_site)"
proof -
  have open_race: "\<exists>r\<in>set (races ex_site). opened_by r = uid ex_plain \<and>
      state r \<noteq> finished \<and> state r \<noteq> cancelled"
    by (simp add: ex_site_def ex_race_dave_def ex_race_def ex_plain_def)
  have none: "succeeded
     (CreateRace_form_valid False ''smw'' ''funky-peach-7777'' ex_staff False ex_new_race ex_site)"
    by (simp add: CreateRace_form_valid_def succeeded_def Let_def exclude_done_def
        opened_races_def ex_site_def ex_race_dave_def ex_race_def ex_staff_def)
  have rejected:
    "CreateRace_form_valid False ''smw'' ''funky-peach-7777'' ex_plain False ex_new_race ex_site =
       Inl (FormError ''You can only have one open race room at a time.'', ex_site)"
    using CreateRace_one_open_race
        [of False ex_site ex_plain "''smw''" "''funky-peach-7777''" False ex_new_race]
      open_race
    by blast
  have exempt: "succeeded
      (CreateRace_form_valid True ''smw'' ''funky-peach-7777'' ex_plain False ex_new_race ex_site) \<and>
    length (races (store_of
      (CreateRace_form_valid True ''smw'' ''funky-peach-7777'' ex_plain False ex_new_race
         ex_site))) = length (races ex_site) + 1"
    using CreateRace_one_open_race
        [of True ex_site ex_plain "''smw''" "''funky-peach-7777''" False ex_new_race]
    by blast
  have len: "length (races ex_site) = 2" by (simp add: ex_site_def)
  show ?thesis using rejected exempt none len by simp
qed

text \<open>
  C7. The query of the chat log has a result, and every result holds exactly the messages
  of the room whose deleted flag is not set, each once, in increasing order of posting
  time; two results differ at most in the order of messages posted at the same time. The
  text of the log is the rendered lines of the result with a newline between one line
  and the next: when no line holds a newline itself, splitting the text at the newlines
  gives the lines back, one per message, and a room with no message to show has the
  empty text. Posting and deleting only ever add a message at the end or set a flag:
  after any run of such operations the room has its earlier messages at the positions
  they had, unchanged but for the flag, a set flag stays set, the room has grown by one
  message per posting, a new message stands at the position after the last, and the
  results of the query after a deletion are those for the room without that message.
\<close>

theorem chat_log_logical_delete:
  "(\<exists>rs. chat_log_messages ms rs) \<and>
   (chat_log_messages ms rs \<longrightarrow>
      set rs = {m \<in> set ms. \<not> deleted m} \<and>
      (\<forall>m. count (mset rs) m = (if deleted m then 0 else count (mset ms) m)) \<and>
      (\<forall>i j. i < j \<and> j < length rs \<longrightarrow> posted_at (rs ! i) \<le> posted_at (rs ! j)) \<and>
      (\<forall>rs'. chat_log_messages ms rs' \<longrightarrow> map posted_at rs' = map posted_at rs) \<and>
      ((\<forall>m\<in>set ms. deleted m) \<longrightarrow> RaceChatLog_get str_dt rs = [])) \<and>
   RaceChatLog_get str_dt rs =
     (case map (render_line str_dt) rs of
        [] \<Rightarrow> []
      | l # rest \<Rightarrow> l @ concat (map ((#) (CHR 0x0A)) rest)) \<and>
   (rs \<noteq> [] \<and> (\<forall>m\<in>set rs. CHR 0x0A \<notin> set (render_line str_dt m)) \<longrightarrow>
      split_lines (RaceChatLog_get str_dt rs) = map (render_line str_dt) rs) \<and>
   length (run_ops ms ops) = length ms + length (filter is_post ops) \<and>
   (\<forall>k<length ms.
      (run_ops ms ops ! k)\<lparr>deleted := True\<rparr> = (ms ! k)\<lparr>deleted := True\<rparr> \<and>
      (deleted (ms ! k) \<longrightarrow> deleted (run_ops ms ops ! k))) \<and>
   run_ops ms (ops @ [Post m]) ! length (run_ops ms ops) = m\<lparr>deleted := False\<rparr> \<and>
   (i < length ms \<longrightarrow>
      length (run_ops ms [Delete i]) = length ms \<and>
      deleted (run_ops ms [Delete i] ! i) \<and>
      (chat_log_messages (run_ops ms [Delete i]) rs \<longleftrightarrow>
         chat_log_messages (take i ms @ drop (Suc i) ms) rs))"
proof (intro conjI impI allI)
  show "\<exists>rs. chat_log_messages ms rs"
    using chat_log_exists by blast
  show "RaceChatLog_get str_dt rs =
     (case map (render_line str_dt) rs of
        [] \<Rightarrow> []
      | l # rest \<Rightarrow> l @ concat (map ((#) (CHR 0x0A)) rest))"
    unfolding RaceChatLog_get_def by (rule join_lines_concat)
  show "length (run_ops ms ops) = length ms + length (filter is_post ops)"
    by (rule run_ops_length)
  show "run_ops ms (ops @ [Post m]) ! length (run_ops ms ops) = m\<lparr>deleted := False\<rparr>"
    by (rule run_ops_post)
next
  assume cl: "chat_log_messages ms rs"
  show "set rs = {m \<in> set ms. \<not> deleted m}"
    using cl by (rule chat_log_set)
  show "\<And>m. count (mset rs) m = (if deleted m then 0 else count (mset ms) m)"
    using cl by (rule chat_log_count)
  show "\<And>i j. i < j \<and> j < length rs \<Longrightarrow> posted_at (rs ! i) \<le> posted_at (rs ! j)"
    using chat_log_mono [OF cl] by simp
  show "\<And>rs'. chat_log_messages ms rs' \<Longrightarrow> map posted_at rs' = map posted_at rs"
    using cl by (rule chat_log_times_unique)
  show "\<forall>m\<in>set ms. deleted m \<Longrightarrow> RaceChatLog_get str_dt rs = []"
    using chat_log_none [OF _ cl] by (simp add: RaceChatLog_get_def)
next
  assume h: "rs \<noteq> [] \<and> (\<forall>m\<in>set rs. CHR 0x0A \<notin> set (render_line str_dt m))"
  then have ne: "map (render_line str_dt) rs \<noteq> []"
    and nl: "\<forall>l\<in>set (map (render_line str_dt) rs). CHR 0x0A \<notin> set l"
    by simp_all
  show "split_lines (RaceChatLog_get str_dt rs) = map (render_line str_dt) rs"
    unfolding RaceChatLog_get_def using ne nl by (rule split_join_lines)
next
  fix k
  assume k: "k < length ms"
  show "(run_ops ms ops ! k)\<lparr>deleted := True\<rparr> = (ms ! k)\<lparr>deleted := True\<rparr>"
    using run_ops_same [OF k] by simp
  assume "deleted (ms ! k)"
  then show "deleted (run_ops ms ops ! k)"
    using run_ops_same [OF k] by simp
next
  assume i: "i < length ms"
  show "length (run_ops ms [Delete i]) = length ms"
    by (simp add: run_ops_delete [OF i])
  show "deleted (run_ops ms [Delete i] ! i)"
    using i by (simp add: run_ops_delete [OF i])
  show "chat_log_messages (run_ops ms [Delete i]) rs \<longleftrightarrow>
         chat_log_messages (take i ms @ drop (Suc i) ms) rs"
    unfolding run_ops_delete [OF i] using i by (rule chat_log_after_delete)
qed

theorem chat_log_logical_delete_witness:
  "chat_log_messages ex_messages [ex_msg_start, ex_msg_oops, ex_msg_hi] \<and>
   RaceChatLog_get show_nat [ex_msg_start, ex_msg_oops, ex_msg_hi] =
     ''[1000000] The race has begun.'' @ [CHR 0x0A] @ ''[2000000] bob: oops'' @
     [CHR 0x0A] @ ''[3000000] alice: hi'' \<and>
   split_lines (RaceChatLog_get show_nat [ex_msg_start, ex_msg_oops, ex_msg_hi]) =
     [''[1000000] The race has begun.'', ''[2000000] bob: oops'', ''[3000000] alice: hi''] \<and>
   run_ops ex_messages [Delete 1, Post ex_msg_late] =
     [ex_msg_start, ex_msg_oops\<lparr>deleted := True\<rparr>, ex_msg_hi, ex_msg_late] \<and>
   (1::nat) < length ex_messages \<and>
   chat_log_messages (run_ops ex_messages [Delete 1]) [ex_msg_start, ex_msg_hi] \<and>
   posted_at ex_msg_start \<le> posted_at ex_msg_oops"
proof -
  let ?rs = "[ex_msg_start, ex_msg_oops, ex_msg_hi]"
  note t = chat_log_logical_delete [of ex_messages ?rs show_nat
      "[Delete 1, Post ex_msg_late]" ex_msg_late 1]
  have len: "(1::nat) < length ex_messages" by (simp add: ex_messages_def)
  have ne: "?rs \<noteq> []" by simp
  have split: "split_lines (RaceChatLog_get show_nat ?rs) = map (render_line show_nat) ?rs"
    using t ne ex_no_newline by (elim conjE) (erule mp, rule conjI)
  have split_val: "split_lines (RaceChatLog_get show_nat ?rs) =
     [''[1000000] The race has begun.'', ''[2000000] bob: oops'', ''[3000000] alice: hi'']"
    unfolding split ex_lines ..
  note body = t [THEN conjunct2, THEN conjunct1, rule_format, OF ex_chat_log]
  note mono = body [THEN conjunct2, THEN conjunct2, THEN conjunct1]
  have ord: "posted_at ex_msg_start \<le> posted_at ex_msg_oops"
    using mono [rule_format, of 0 1] by simp
  note t2 = chat_log_logical_delete [of ex_messages "[ex_msg_start, ex_msg_hi]" show_nat
      "[]" ex_msg_late 1]
  have del: "chat_log_messages (run_ops ex_messages [Delete 1]) [ex_msg_start, ex_msg_hi]"
    using t2 len ex_chat_log_deleted by (elim conjE) simp
  show ?thesis
    by (intro conjI) (rule ex_chat_log ex_export split_val ex_run len del ord)+
qed

section \<open>Properties of the category views\<close>



text \<open>
  C2. The order of the listing is not stable and not a total order of the rooms. The
  query orders by group and opening time and by nothing else, so two rooms of the same
  group opened at the same time are level: each comes before the other in the order,
  and the listing may hold them either way round.
\<close>

theorem current_races_ties_unordered:
  "current_races ex_category [ex_tie_a, ex_tie_b] [ex_tie_a, ex_tie_b] \<and>
   current_races ex_category [ex_tie_a, ex_tie_b] [ex_tie_b, ex_tie_a] \<and>
   ex_tie_a \<noteq> ex_tie_b \<and>
   listing_le ex_tie_a ex_tie_b \<and> listing_le ex_tie_b ex_tie_a"
  using ex_tie_listings ex_tie_distinct by (simp add: listing_le_def ex_tie_keys)

text \<open>
  C2, as the code has it. The query has a listing, and every listing it can return holds
  exactly the races of the category that are neither finished nor cancelled, each once.
  Of any two rooms of a listing, the earlier one is in the same or an earlier group (open
  and invitational first, pending and in progress second), and within a group it was
  opened no later. With the six states of a race every listed room is in one of these
  two groups: the default of the annotation, 0, is the value of finished and cancelled
  rooms only, and those are excluded. Any two listings agree position by position on
  group and opening time, so they differ at most in the order of level rooms; and of
  any two rooms one comes before the other or they are level.
\<close>

theorem current_races_order:
  "(\<exists>rs. current_races c tbl rs) \<and>
   (current_races c tbl rs \<longrightarrow>
      set rs = {r \<in> set tbl. category r = category_slug c \<and>
                  state r \<noteq> finished \<and> state r \<noteq> cancelled} \<and>
      length rs = length (exclude_done (race_set c tbl)) \<and>
      (\<forall>i j. i < j \<and> j < length rs \<longrightarrow>
         listing_group (state (rs ! i)) \<le> listing_group (state (rs ! j)) \<and>
         (listing_group (state (rs ! i)) = listing_group (state (rs ! j)) \<longrightarrow>
          opened_at (rs ! i) \<le> opened_at (rs ! j))) \<and>
      (\<forall>r\<in>set rs. listing_group (state r) = 1 \<or> listing_group (state r) = 2) \<and>
      (\<forall>rs'. current_races c tbl rs' \<longrightarrow> map listing_key rs' = map listing_key rs)) \<and>
   (\<forall>st. state_sort st = 0 \<longleftrightarrow> st = finished \<or> st = cancelled) \<and>
   (\<forall>a b. listing_le a b \<or> listing_le b a)"
proof (intro conjI impI allI ballI)
  show "\<exists>rs. current_races c tbl rs"
    using current_races_exists by blast
next
  assume cr: "current_races c tbl rs"
  show "set rs = {r \<in> set tbl. category r = category_slug c \<and>
                  state r \<noteq> finished \<and> state r \<noteq> cancelled}"
    using cr by (rule current_races_set)
  show "length rs = length (exclude_done (race_set c tbl))"
    using cr unfolding current_races_def by (metis size_mset)
  {
    fix i j
    assume h: "i < j \<and> j < length rs"
    then have ij: "i < j" "j < length rs" by simp_all
    note po = current_races_pair_order [OF cr ij]
    show "listing_group (state (rs ! i)) \<le> listing_group (state (rs ! j))"
      using po by simp
    assume "listing_group (state (rs ! i)) = listing_group (state (rs ! j))"
    then show "opened_at (rs ! i) \<le> opened_at (rs ! j)"
      using po by simp
  }
  {
    fix r
    assume "r \<in> set rs"
    then have "\<not> (state r = finished \<or> state r = cancelled)"
      by (rule current_races_not_done [OF cr])
    then show "listing_group (state r) = 1 \<or> listing_group (state r) = 2"
      by (cases "state r") (simp_all add: listing_group_def)
  }
  {
    fix rs'
    assume "current_races c tbl rs'"
    then show "map listing_key rs' = map listing_key rs"
      using cr by (rule current_races_keys_unique)
  }
next
  fix st
  show "state_sort st = 0 \<longleftrightarrow> st = finished \<or> st = cancelled"
    by (rule state_sort_default)
next
  fix a b
  show "listing_le a b \<or> listing_le b a"
    by (simp add: listing_le_def linear)
qed


theorem current_races_order_witness:
  "current_races ex_category ex_table
     [ex_race_inv, ex_race, ex_race_inprog, ex_race_pending] \<and>
   ex_race_inprog \<in> set [ex_race_inv, ex_race, ex_race_inprog, ex_race_pending] \<and>
   listing_group (state ex_race_inprog) = 2 \<and>
   listing_group (state ex_race) \<le> listing_group (state ex_race_inprog) \<and>
   listing_group (state ex_race_inv) = listing_group (state ex_race) \<and>
   opened_at ex_race_inv \<le> opened_at ex_race \<and>
   current_races ex_category [ex_tie_a, ex_tie_b] [ex_tie_b, ex_tie_a] \<and>
   map listing_key [ex_tie_b, ex_tie_a] = map listing_key [ex_tie_a, ex_tie_b]"
proof -
  let ?rs = "[ex_race_inv, ex_race, ex_race_inprog, ex_race_pending]"
  note body = current_races_order [of ex_category ex_table ?rs, THEN conjunct2,
      THEN conjunct1, rule_format, OF ex_current_races]
  note ord = body [THEN conjunct2, THEN conjunct2, THEN conjunct1]
  have p12: "listing_group (state ex_race) \<le> listing_group (state ex_race_inprog)"
    using ord [rule_format, of 1 2] by simp
  have same: "listing_group (state ex_race_inv) = listing_group (state ex_race)"
    by (simp add: listing_group_def ex_race_inv_def ex_race_def)
  have p01: "opened_at ex_race_inv \<le> opened_at ex_race"
    using ord [rule_format, of 0 1] same by simp
  have g: "listing_group (state ex_race_inprog) = 2"
    by (simp add: listing_group_def ex_race_inprog_def ex_race_def)
  note tie_body = current_races_order [of ex_category "[ex_tie_a, ex_tie_b]"
      "[ex_tie_a, ex_tie_b]", THEN conjunct2, THEN conjunct1, rule_format,
      OF ex_tie_listings(1)]
  note u = tie_body [THEN conjunct2, THEN conjunct2, THEN conjunct2, THEN conjunct2,
      rule_format, OF ex_tie_listings(2)]
  have mem: "ex_race_inprog \<in> set ?rs" by simp
  show ?thesis
    by (intro conjI) (rule ex_current_races mem g p12 same p01 ex_tie_listings(2) u)+
qed


end
